(* ===== verification/Prelude.thy ===== *)
theory Prelude
  imports Main
begin

text \<open>
  Shared vocabulary of the development: the fact collections the component
  theories fill and use, the result type of operations that may throw, the
  loop combinator that models \<^verbatim>\<open>forEach\<close>, and the facts about lists
  (\<open>take\<close>, \<open>drop\<close>, \<open>nths\<close>, \<open>find\<close>, \<open>concat\<close>) that the
  string and tree theories share.
\<close>

section \<open>Fact collections\<close>

named_theorems js_defs \<open>unfoldings of the modelled JavaScript built-ins\<close>
named_theorems dom_defs \<open>unfoldings of the modelled DOM operations\<close>
named_theorems frame \<open>what an operation leaves unchanged\<close>

section \<open>Results of operations that may throw\<close>

text \<open>
  A thrown exception is the left summand, a normal completion the right one.
  \<open>bind_result\<close> is sequencing: the first exception ends the computation.
\<close>

type_synonym ('e, 'a) result = "'e + 'a"

abbreviation Throw :: "'e \<Rightarrow> ('e, 'a) result" where
  "Throw \<equiv> Inl"

abbreviation Normal :: "'a \<Rightarrow> ('e, 'a) result" where
  "Normal \<equiv> Inr"

definition bind_result :: "('e, 'a) result \<Rightarrow> ('a \<Rightarrow> ('e, 'b) result) \<Rightarrow> ('e, 'b) result" where
  "bind_result r f = (case r of Inl e \<Rightarrow> Inl e | Inr a \<Rightarrow> f a)"

lemma bind_result_simps [simp]:
  "bind_result (Throw e) f = Throw e"
  "bind_result (Normal a) f = f a"
  by (simp_all add: bind_result_def)

lemma bind_result_eq_Normal:
  "bind_result r f = Normal b \<longleftrightarrow> (\<exists>a. r = Normal a \<and> f a = Normal b)"
  by (cases r) simp_all

lemma bind_result_eq_Throw:
  "bind_result r f = Throw e \<longleftrightarrow> r = Throw e \<or> (\<exists>a. r = Normal a \<and> f a = Throw e)"
  by (cases r) simp_all

lemma bind_result_assoc:
  "bind_result (bind_result r f) g = bind_result r (\<lambda>a. bind_result (f a) g)"
  by (cases r) simp_all

section \<open>forEach\<close>

text \<open>
  \<^verbatim>\<open>list.forEach(callback)\<close> on a static list: the callback runs on each
  item in order, each call starting from the state the previous one left, and
  an exception thrown by a call ends the loop and is the loop's result.
\<close>

fun for_each :: "'a list \<Rightarrow> ('a \<Rightarrow> 's \<Rightarrow> ('e, 's) result) \<Rightarrow> 's \<Rightarrow> ('e, 's) result" where
  "for_each [] f s = Normal s"
| "for_each (x # xs) f s = bind_result (f x s) (for_each xs f)"

lemma for_each_append:
  "for_each (xs @ ys) f s = bind_result (for_each xs f s) (for_each ys f)"
  by (induction xs arbitrary: s) (simp_all add: bind_result_def split: sum.splits)

lemma for_each_invariant:
  assumes "for_each xs f s = Normal s'" and "I s"
    and "\<And>x t t'. x \<in> set xs \<Longrightarrow> I t \<Longrightarrow> f x t = Normal t' \<Longrightarrow> I t'"
  shows "I s'"
  using assms
proof (induction xs arbitrary: s)
  case Nil
  then show ?case by simp
next
  case (Cons x xs)
  from Cons.prems(1) obtain t where t: "f x s = Normal t" "for_each xs f t = Normal s'"
    by (auto simp: bind_result_eq_Normal)
  with Cons.prems(2,3) have "I t"
    by auto
  with t(2) Cons.prems(3) show ?case
    by (intro Cons.IH [of t]) auto
qed

lemma for_each_total:
  assumes "I s" and "\<And>x t. x \<in> set xs \<Longrightarrow> I t \<Longrightarrow> \<exists>t'. f x t = Normal t' \<and> I t'"
  shows "\<exists>s'. for_each xs f s = Normal s' \<and> I s'"
  using assms
proof (induction xs arbitrary: s)
  case Nil
  then show ?case by simp
next
  case (Cons x xs)
  from Cons.prems obtain t where "f x s = Normal t" "I t"
    by (meson list.set_intros(1))
  with Cons.IH [of t] Cons.prems(2) show ?case
    by auto
qed

section \<open>Lists\<close>

lemma butlast_tl_conv_take_drop: "butlast (tl xs) = take (length xs - 2) (drop 1 xs)"
  by (simp add: butlast_conv_take drop_Suc numeral_2_eq_2)

lemma length_butlast_tl [simp]: "length (butlast (tl xs)) = length xs - 2"
  by (simp add: butlast_tl_conv_take_drop)

lemma butlast_tl_wrap [simp]: "butlast (tl (l # xs @ [r])) = xs"
  by simp

lemma long_list_wrapE:
  assumes "1 < length xs"
  obtains l ys r where "xs = l # ys @ [r]"
proof -
  from assms obtain l zs where xs: "xs = l # zs" and "zs \<noteq> []"
    by (cases xs) auto
  then obtain ys r where "zs = ys @ [r]"
    by (cases zs rule: rev_cases) auto
  with xs that show thesis by blast
qed

lemma find_append:
  "find P (xs @ ys) = (case find P xs of None \<Rightarrow> find P ys | Some x \<Rightarrow> Some x)"
  by (induction xs) simp_all

lemma find_None_append [simp]: "find P xs = None \<Longrightarrow> find P (xs @ ys) = find P ys"
  by (simp add: find_append)

lemma find_Some_append [simp]: "find P xs = Some x \<Longrightarrow> find P (xs @ ys) = Some x"
  by (simp add: find_append)

lemma find_SomeD: "find P xs = Some x \<Longrightarrow> P x \<and> x \<in> set xs"
  by (auto simp: find_Some_iff)

lemma find_key_distinct:
  assumes "distinct (map f xs)" and "x \<in> set xs"
  shows "find (\<lambda>y. f y = f x) xs = Some x"
  using assms by (induction xs) (auto simp: rev_image_eqI)

lemma funpow_add_apply: "(f ^^ (m + n)) x = (f ^^ n) ((f ^^ m) x)"
  by (induction n) simp_all

text \<open>A slice of a list by its set of indices is a \<open>take\<close> of a \<open>drop\<close>.\<close>

lemma nths_between: "nths xs {i. m \<le> i \<and> i < n} = take (n - m) (drop m xs)"
proof -
  have "(+) m ` {..<n - m} = {i. m \<le> i \<and> i < n}"
  proof (intro equalityI subsetI)
    fix i
    assume "i \<in> {i. m \<le> i \<and> i < n}"
    then have "i = m + (i - m)" "i - m < n - m"
      by auto
    then show "i \<in> (+) m ` {..<n - m}"
      by blast
  qed auto
  then have "nths xs {i. m \<le> i \<and> i < n} = nths (drop m xs) {..<n - m}"
    by (simp only: nths_drop)
  also have "\<dots> = take (n - m) (drop m xs)"
    by (rule nths_upt_eq_take)
  finally show ?thesis .
qed

lemma take_drop_clamp:
  "take (min n (length xs) - min m (length xs)) (drop (min m (length xs)) xs) =
     take (n - m) (drop m xs)"
  by (cases "m \<le> length xs") (auto simp: min_def)

lemma concat_map_id_conv [simp]: "concat (map (\<lambda>x. [x]) xs) = xs"
  by (induction xs) simp_all

end
