(* ===== verification/JS_String.thy ===== *)
theory JS_String
  imports Prelude "HOL-Library.Word" "HOL-Library.Sublist"
begin

text \<open>
  JavaScript strings as the language defines them: finite sequences of 16-bit
  code units. \<open>js_length\<close> is the \<^verbatim>\<open>length\<close> property and
  \<open>js_slice\<close> is \<^verbatim>\<open>String.prototype.slice\<close> with both arguments
  given as integers, following the steps of ECMA-262: each index is taken
  relative to the end when negative and clamped to the string, and an empty
  range gives the empty string. These are the two built-ins that
  \<^verbatim>\<open>src/_resources/js/scripts.js\<close> applies to the text of a badge
  (lines 6 and 7).
\<close>

section \<open>Code units and literals\<close>

type_synonym code_unit = "16 word"
type_synonym jsstring = "code_unit list"

text \<open>A string literal of the source, all of whose characters are ASCII.\<close>

definition js_lit :: "string \<Rightarrow> jsstring" where
  "js_lit s = map of_char s"

lemma js_lit_simps [simp]:
  "js_lit [] = []"
  "js_lit (c # cs) = of_char c # js_lit cs"
  by (simp_all add: js_lit_def)

lemma length_js_lit [simp]: "length (js_lit s) = length s"
  by (simp add: js_lit_def)

section \<open>The length property\<close>

definition js_length :: "'a list \<Rightarrow> int" where
  "js_length s = int (length s)"

lemma js_length_nonneg [simp]: "0 \<le> js_length s"
  by (simp add: js_length_def)

lemma js_length_gt_1_iff [simp]: "1 < js_length s \<longleftrightarrow> 1 < length s"
  by (simp add: js_length_def)

lemma js_length_append [simp]: "js_length (s @ t) = js_length s + js_length t"
  by (simp add: js_length_def)

section \<open>slice\<close>

text \<open>
  \<open>rel_index len i\<close> resolves one argument of \<^verbatim>\<open>slice\<close> against a string
  of \<open>len\<close> code units: \<open>max (len + i) 0\<close> for a negative \<open>i\<close>, \<open>min i len\<close>
  otherwise.
\<close>

definition rel_index :: "int \<Rightarrow> int \<Rightarrow> nat" where
  "rel_index len i = nat (if i < 0 then max (len + i) 0 else min i len)"

definition js_slice :: "'a list \<Rightarrow> int \<Rightarrow> int \<Rightarrow> 'a list" where
  "js_slice s start stop =
     (let len = js_length s;
          from = rel_index len start;
          to = rel_index len stop
      in if to \<le> from then [] else take (to - from) (drop from s))"

lemmas [js_defs] = js_length_def rel_index_def js_slice_def

lemma rel_index_le [simp]: "rel_index (int n) i \<le> n"
  by (auto simp: rel_index_def)

lemma rel_index_nonneg: "0 \<le> i \<Longrightarrow> rel_index (int n) i = min (nat i) n"
  by (simp add: rel_index_def)

lemma rel_index_neg: "i < 0 \<Longrightarrow> rel_index (int n) i = n - nat (- i)"
  by (simp add: rel_index_def)

lemma rel_index_shift:
  "- len \<le> i \<Longrightarrow> i < 0 \<Longrightarrow> rel_index len i = rel_index len (len + i)"
  by (simp add: rel_index_def)

text \<open>The case distinction of \<^verbatim>\<open>slice\<close> is subsumed by truncating subtraction.\<close>

lemma js_slice_conv_take_drop:
  "js_slice s start stop =
     take (rel_index (int (length s)) stop - rel_index (int (length s)) start)
       (drop (rel_index (int (length s)) start) s)"
  by (simp add: js_slice_def js_length_def Let_def)

lemma length_js_slice:
  "length (js_slice s start stop) =
     rel_index (int (length s)) stop - rel_index (int (length s)) start"
  by (simp add: js_slice_conv_take_drop min_absorb2 diff_le_mono)

lemma length_js_slice_le: "length (js_slice s start stop) \<le> length s"
  using rel_index_le [of "length s" stop] unfolding length_js_slice by arith

lemma nth_js_slice:
  "i < length (js_slice s start stop) \<Longrightarrow>
     js_slice s start stop ! i = s ! (rel_index (int (length s)) start + i)"
  by (simp add: length_js_slice) (simp add: js_slice_conv_take_drop)

lemma sublist_js_slice: "sublist (js_slice s start stop) s"
  unfolding js_slice_conv_take_drop
  by (meson sublist_drop sublist_order.order_trans sublist_take)

lemma set_js_slice_subset: "set (js_slice s start stop) \<subseteq> set s"
  by (rule set_mono_sublist) (rule sublist_js_slice)

lemma js_slice_whole [simp]: "js_slice s 0 (int (length s)) = s"
  by (simp add: js_slice_conv_take_drop rel_index_def)

lemma js_slice_Nil [simp]: "js_slice [] start stop = []"
  by (simp add: js_slice_conv_take_drop)

lemma js_slice_neg_start:
  "- int (length s) \<le> start \<Longrightarrow> start < 0 \<Longrightarrow>
     js_slice s start stop = js_slice s (int (length s) + start) stop"
  by (simp add: js_slice_conv_take_drop rel_index_shift)

lemma js_slice_neg_stop:
  "- int (length s) \<le> stop \<Longrightarrow> stop < 0 \<Longrightarrow>
     js_slice s start stop = js_slice s start (int (length s) + stop)"
  by (simp add: js_slice_conv_take_drop rel_index_shift)

text \<open>The call the script makes: drop the first and the last code unit.\<close>

lemma js_slice_1_minus_1: "js_slice s 1 (- 1) = butlast (tl s)"
proof (cases s)
  case Nil
  then show ?thesis by simp
next
  case (Cons c cs)
  then show ?thesis
    by (simp add: js_slice_conv_take_drop rel_index_def butlast_conv_take)
qed

section \<open>What slice returns\<close>

lemma rel_index_conv_min:
  "rel_index (int n) i = min (nat (if i < 0 then int n + i else i)) n"
  by (auto simp: rel_index_def)

text \<open>
  C29. \<^verbatim>\<open>slice\<close> against a reference definition, for all integer
  arguments: a negative argument counts from the end of the string, and the
  result holds, in order, the code units at the indices from the start
  argument up to, not including, the stop argument. Indices outside the
  string select nothing, so the clamping and the empty case of
  \<^verbatim>\<open>slice\<close> need no mention. For \<^verbatim>\<open>slice(1, -1)\<close> these are the indices
  from 1 to the length minus 2.
\<close>

theorem js_slice_nths:
  "js_slice s start stop =
     nths s {i. (if start < 0 then int (length s) + start else start) \<le> int i \<and>
                int i < (if stop < 0 then int (length s) + stop else stop)}"
proof -
  let ?a = "if start < 0 then int (length s) + start else start"
  let ?b = "if stop < 0 then int (length s) + stop else stop"
  have "{i. ?a \<le> int i \<and> int i < ?b} = {i. nat ?a \<le> i \<and> i < nat ?b}"
    by auto
  then have "nths s {i. ?a \<le> int i \<and> int i < ?b} = take (nat ?b - nat ?a) (drop (nat ?a) s)"
    by (simp only: nths_between)
  also have "\<dots> = js_slice s start stop"
    by (simp only: js_slice_conv_take_drop rel_index_conv_min take_drop_clamp)
  finally show ?thesis
    by simp
qed

end
