(* ===== verification/DOM_Tree.thy ===== *)
theory DOM_Tree
  imports JS_String "HOL-Library.Multiset"
begin

text \<open>
  The node trees of the DOM, as far as the script can observe them. A node has
  an identity (the object a JavaScript reference points to), a kind with the
  data of that kind, and its children in order. The theory defines tree order,
  the \<^verbatim>\<open>textContent\<close> getter, the matching of a class selector as used by
  \<^verbatim>\<open>querySelectorAll\<close> (line 3 of \<^verbatim>\<open>src/_resources/js/scripts.js\<close>),
  and the replacement of the children of the node with a given identity, on
  which the \<^verbatim>\<open>textContent\<close> setter is built in \<open>DOM_Store\<close>.
\<close>

section \<open>Nodes\<close>

type_synonym node_id = nat

datatype kind =
    Document
  | Doctype
  | Element (tag_name: jsstring) (class_list: "jsstring list")
  | Text jsstring
  | Comment jsstring

datatype node = Node (node_id: node_id) (kind: kind) (child_nodes: "node list")

section \<open>Tree order\<close>

text \<open>
  \<open>inclusive_descendants n\<close> lists \<open>n\<close> and its descendants in tree order
  (preorder, depth first); \<open>nodes_of\<close> does so for a list of trees.
\<close>

fun inclusive_descendants :: "node \<Rightarrow> node list" where
  "inclusive_descendants (Node i k cs) = Node i k cs # concat (map inclusive_descendants cs)"

definition nodes_of :: "node list \<Rightarrow> node list" where
  "nodes_of ts = concat (map inclusive_descendants ts)"

definition descendants :: "node \<Rightarrow> node list" where
  "descendants n = nodes_of (child_nodes n)"

definition ids :: "node list \<Rightarrow> node_id list" where
  "ids ts = map node_id (nodes_of ts)"

lemma nodes_of_simps [simp]:
  "nodes_of [] = []"
  "nodes_of (t # ts) = inclusive_descendants t @ nodes_of ts"
  "nodes_of (ts @ us) = nodes_of ts @ nodes_of us"
  by (simp_all add: nodes_of_def)

lemma inclusive_descendants_conv: "inclusive_descendants n = n # descendants n"
  by (cases n) (simp add: descendants_def nodes_of_def)

lemma inclusive_descendants_Node [simp]:
  "inclusive_descendants (Node i k cs) = Node i k cs # nodes_of cs"
  by (simp add: nodes_of_def)

declare inclusive_descendants.simps [simp del]

lemma descendants_Node [simp]: "descendants (Node i k cs) = nodes_of cs"
  by (simp add: descendants_def)

lemma ids_simps [simp]:
  "ids [] = []"
  "ids (Node i k cs # ts) = i # ids cs @ ids ts"
  "ids (ts @ us) = ids ts @ ids us"
  by (simp_all add: ids_def)

lemma ids_Cons: "ids (t # ts) = ids [t] @ ids ts"
  by (simp add: ids_def)

lemma ids_single: "ids [n] = node_id n # ids (child_nodes n)"
  by (cases n) simp

lemma self_in_inclusive_descendants [simp]: "n \<in> set (inclusive_descendants n)"
  by (simp add: inclusive_descendants_conv)

lemma set_nodes_of: "set (nodes_of ts) = (\<Union>t\<in>set ts. set (inclusive_descendants t))"
  by (simp add: nodes_of_def)

lemma roots_in_nodes_of: "t \<in> set ts \<Longrightarrow> t \<in> set (nodes_of ts)"
  by (auto simp: set_nodes_of intro!: bexI [of _ t])

lemma set_ids: "set (ids ts) = node_id ` set (nodes_of ts)"
  by (simp add: ids_def)

lemma set_ids_Union: "set (ids ts) = (\<Union>t\<in>set ts. set (ids [t]))"
  by (simp add: set_ids set_nodes_of image_UN)

lemma node_id_in_ids: "m \<in> set (nodes_of ts) \<Longrightarrow> node_id m \<in> set (ids ts)"
  by (simp add: set_ids)

text \<open>Descendants of descendants are descendants.\<close>

lemma inclusive_descendants_trans:
  "m \<in> set (inclusive_descendants n) \<Longrightarrow>
     set (inclusive_descendants m) \<subseteq> set (inclusive_descendants n)"
proof (induction n)
  case (Node i k cs)
  show ?case
  proof (cases "m = Node i k cs")
    case True
    then show ?thesis by simp
  next
    case False
    with Node.prems obtain c where c: "c \<in> set cs" "m \<in> set (inclusive_descendants c)"
      by (auto simp: set_nodes_of)
    with Node.IH have "set (inclusive_descendants m) \<subseteq> set (inclusive_descendants c)"
      by blast
    with c(1) show ?thesis
      by (auto simp: set_nodes_of)
  qed
qed

lemma nodes_of_trans:
  "m \<in> set (nodes_of ts) \<Longrightarrow> set (inclusive_descendants m) \<subseteq> set (nodes_of ts)"
  using inclusive_descendants_trans by (fastforce simp: set_nodes_of)

lemma child_in_nodes_of:
  "m \<in> set (nodes_of ts) \<Longrightarrow> c \<in> set (child_nodes m) \<Longrightarrow> c \<in> set (nodes_of ts)"
  using nodes_of_trans [of m ts] roots_in_nodes_of [of c "child_nodes m"]
  by (auto simp: inclusive_descendants_conv descendants_def)

lemma ids_subtree_subset: "m \<in> set (nodes_of ts) \<Longrightarrow> set (ids [m]) \<subseteq> set (ids ts)"
  using nodes_of_trans [of m ts] by (auto simp: set_ids)

lemma ids_children_subset: "m \<in> set (nodes_of ts) \<Longrightarrow> set (ids (child_nodes m)) \<subseteq> set (ids ts)"
  using ids_subtree_subset [of m ts] by (auto simp: ids_single)

section \<open>Distinct identities\<close>

lemma distinct_ids_Cons:
  "distinct (ids (t # ts)) \<longleftrightarrow>
     distinct (ids [t]) \<and> distinct (ids ts) \<and> set (ids [t]) \<inter> set (ids ts) = {}"
  by (subst ids_Cons) simp

lemma distinct_ids_Node:
  "distinct (ids [Node i k cs]) \<longleftrightarrow> i \<notin> set (ids cs) \<and> distinct (ids cs)"
  by simp

lemma distinct_ids_member: "distinct (ids ts) \<Longrightarrow> t \<in> set ts \<Longrightarrow> distinct (ids [t])"
proof (induction ts)
  case Nil
  then show ?case by simp
next
  case (Cons a ts)
  then show ?case
    using distinct_ids_Cons [of a ts] by auto
qed

lemma distinct_ids_subtree:
  "distinct (ids ts) \<Longrightarrow> m \<in> set (nodes_of ts) \<Longrightarrow> distinct (ids [m])"
proof (induction ts arbitrary: m rule: measure_induct_rule [where f = "size_list size"])
  case (less ts)
  from less.prems(2) obtain t where t: "t \<in> set ts" "m \<in> set (inclusive_descendants t)"
    by (auto simp: set_nodes_of)
  obtain i k cs where [simp]: "t = Node i k cs"
    by (cases t)
  from less.prems(1) t(1) have dt: "distinct (ids [t])"
    by (rule distinct_ids_member)
  show ?case
  proof (cases "m = t")
    case True
    with dt show ?thesis by simp
  next
    case False
    with t(2) have m: "m \<in> set (nodes_of cs)"
      by simp
    from t(1) have "size_list size cs < size_list size ts"
      by (induction ts) auto
    moreover from dt have "distinct (ids cs)"
      by simp
    ultimately show ?thesis
      using m by (rule less.IH)
  qed
qed

lemma distinct_ids_children:
  "distinct (ids ts) \<Longrightarrow> m \<in> set (nodes_of ts) \<Longrightarrow>
     distinct (ids (child_nodes m)) \<and> node_id m \<notin> set (ids (child_nodes m))"
  using distinct_ids_subtree [of ts m] by (simp add: ids_single)

text \<open>With distinct identities, an identity names at most one node.\<close>

lemma node_id_inj_on_nodes:
  "distinct (ids ts) \<Longrightarrow> inj_on node_id (set (nodes_of ts))"
  by (simp add: ids_def distinct_map)

lemma same_id_same_node:
  "distinct (ids ts) \<Longrightarrow> m \<in> set (nodes_of ts) \<Longrightarrow> m' \<in> set (nodes_of ts) \<Longrightarrow>
     node_id m = node_id m' \<Longrightarrow> m = m'"
  by (auto dest: node_id_inj_on_nodes inj_onD)

section \<open>Induction over lists of trees\<close>

lemma forest_induct [case_names Nil Cons]:
  assumes "P []"
    and "\<And>i k cs ts. P cs \<Longrightarrow> P ts \<Longrightarrow> P (Node i k cs # ts)"
  shows "P ts"
proof (induction ts rule: measure_induct_rule [where f = "size_list size"])
  case (less ts)
  show ?case
  proof (cases ts)
    case Nil
    with assms(1) show ?thesis by simp
  next
    case (Cons t us)
    obtain i k cs where t: "t = Node i k cs"
      by (cases t)
    with Cons have "P cs" and "P us"
      by (auto intro!: less.IH)
    with Cons t show ?thesis
      by (simp add: assms(2))
  qed
qed

section \<open>The textContent getter\<close>

text \<open>
  The getter returns \<^verbatim>\<open>null\<close> (\<open>None\<close>) on a document or a doctype, the
  data of a text or comment node, and on an element the concatenated data of
  its text node descendants in tree order.
\<close>

definition text_data :: "node \<Rightarrow> jsstring" where
  "text_data n = (case kind n of Text s \<Rightarrow> s | _ \<Rightarrow> [])"

definition descendant_text :: "node \<Rightarrow> jsstring" where
  "descendant_text n = concat (map text_data (descendants n))"

definition text_content :: "node \<Rightarrow> jsstring option" where
  "text_content n =
     (case kind n of
        Document \<Rightarrow> None
      | Doctype \<Rightarrow> None
      | Element _ _ \<Rightarrow> Some (descendant_text n)
      | Text s \<Rightarrow> Some s
      | Comment s \<Rightarrow> Some s)"

definition is_element :: "node \<Rightarrow> bool" where
  "is_element n = (case kind n of Element _ _ \<Rightarrow> True | _ \<Rightarrow> False)"

lemmas [dom_defs] = text_data_def descendant_text_def text_content_def is_element_def

lemma is_element_kind: "kind n = kind m \<Longrightarrow> is_element n = is_element m"
  by (simp add: is_element_def)

lemma text_content_element:
  "is_element n \<Longrightarrow> text_content n = Some (descendant_text n)"
  by (simp add: is_element_def text_content_def split: kind.splits)

lemma descendant_text_no_children [simp]: "descendant_text (Node i k []) = []"
  by (simp add: descendant_text_def)

lemma descendant_text_text_child [simp]: "descendant_text (Node i k [Node j (Text s) []]) = s"
  by (simp add: descendant_text_def text_data_def)

section \<open>Class selectors\<close>

datatype selector = Class_selector jsstring

fun matches :: "selector \<Rightarrow> node \<Rightarrow> bool" where
  "matches (Class_selector c) n = (case kind n of Element _ cs \<Rightarrow> c \<in> set cs | _ \<Rightarrow> False)"

text \<open>
  \<^verbatim>\<open>querySelectorAll\<close> on a node: its descendants that match, in tree order.
\<close>

definition query_selector_all :: "selector \<Rightarrow> node \<Rightarrow> node list" where
  "query_selector_all sel root = filter (matches sel) (descendants root)"

lemma matches_is_element: "matches sel n \<Longrightarrow> is_element n"
  by (cases sel) (simp add: is_element_def split: kind.splits)

lemma query_selector_all_subset:
  "set (query_selector_all sel root) \<subseteq> set (descendants root)"
  by (simp add: query_selector_all_def)

lemma query_selector_all_elements:
  "n \<in> set (query_selector_all sel root) \<Longrightarrow> is_element n"
  by (auto simp: query_selector_all_def dest: matches_is_element)

section \<open>Replacing the children of a node\<close>

text \<open>
  \<open>update_node i f\<close> applies \<open>f\<close> to the node with identity \<open>i\<close> and
  leaves the rest of the tree as it is; \<open>children_of i\<close> gives the children
  that node has. Replacing a node's children removes the old ones from the
  tree with all their descendants: the multiset equation below accounts for
  every node before and after.
\<close>

fun update_node :: "node_id \<Rightarrow> (node \<Rightarrow> node) \<Rightarrow> node \<Rightarrow> node" where
  "update_node i f (Node j k cs) =
     (if i = j then f (Node j k cs) else Node j k (map (update_node i f) cs))"

definition set_children :: "node list \<Rightarrow> node \<Rightarrow> node" where
  "set_children new n = Node (node_id n) (kind n) new"

fun children_of :: "node_id \<Rightarrow> node \<Rightarrow> node list" where
  "children_of i (Node j k cs) = (if i = j then cs else concat (map (children_of i) cs))"

lemma set_children_simps [simp]:
  "node_id (set_children new n) = node_id n"
  "kind (set_children new n) = kind n"
  "child_nodes (set_children new n) = new"
  "set_children new (Node j k cs) = Node j k new"
  by (simp_all add: set_children_def)

lemma update_nodes_absent:
  "i \<notin> set (ids ts) \<Longrightarrow> map (update_node i f) ts = ts"
  by (induction ts rule: forest_induct) auto

lemma update_node_absent: "i \<notin> set (ids [n]) \<Longrightarrow> update_node i f n = n"
  using update_nodes_absent [of i "[n]" f] by simp

lemma update_node_absent_member:
  "i \<notin> set (ids ts) \<Longrightarrow> m \<in> set (nodes_of ts) \<Longrightarrow> update_node i f m = m"
  using ids_subtree_subset [of m ts] by (auto intro: update_node_absent)

lemma map_update_node_nodes_absent:
  "i \<notin> set (ids ts) \<Longrightarrow> map (update_node i f) (nodes_of ts) = nodes_of ts"
  by (rule map_idI) (simp add: update_node_absent_member)

lemma image_mset_update_node_absent:
  "i \<notin> set (ids ts) \<Longrightarrow>
     image_mset (update_node i f) (mset (nodes_of ts)) = mset (nodes_of ts)"
  by (simp add: map_update_node_nodes_absent flip: mset_map)

lemma children_of_absent:
  "i \<notin> set (ids ts) \<Longrightarrow> concat (map (children_of i) ts) = []"
  by (induction ts rule: forest_induct) auto

lemma node_id_update_node [simp]:
  "(\<And>m. node_id (f m) = node_id m) \<Longrightarrow> node_id (update_node i f n) = node_id n"
  by (cases n) simp

lemma kind_update_node [simp]:
  "(\<And>m. kind (f m) = kind m) \<Longrightarrow> kind (update_node i f n) = kind n"
  by (cases n) simp

lemma children_of_present:
  "distinct (ids ts) \<Longrightarrow> m \<in> set (nodes_of ts) \<Longrightarrow>
     concat (map (children_of (node_id m)) ts) = child_nodes m"
proof (induction ts rule: forest_induct)
  case Nil
  then show ?case by simp
next
  case (Cons i k cs ts)
  from Cons.prems(1) have d: "i \<notin> set (ids cs)" "i \<notin> set (ids ts)" "distinct (ids cs)"
    "distinct (ids ts)" "set (ids cs) \<inter> set (ids ts) = {}"
    by auto
  consider "m = Node i k cs" | "m \<in> set (nodes_of cs)" | "m \<in> set (nodes_of ts)"
    using Cons.prems(2) by auto
  then show ?case
  proof cases
    case 1
    with d show ?thesis by (simp add: children_of_absent)
  next
    case 2
    then have "node_id m \<in> set (ids cs)" by (rule node_id_in_ids)
    with d have "node_id m \<noteq> i" "node_id m \<notin> set (ids ts)" by auto
    with 2 d Cons.IH(1) show ?thesis by (simp add: children_of_absent)
  next
    case 3
    then have "node_id m \<in> set (ids ts)" by (rule node_id_in_ids)
    with d have "node_id m \<noteq> i" "node_id m \<notin> set (ids cs)" by auto
    with 3 d Cons.IH(2) show ?thesis by (simp add: children_of_absent)
  qed
qed

lemma mset_nodes_update:
  assumes "distinct (ids ts)"
  shows "mset (nodes_of (map (update_node i (set_children new)) ts)) +
           mset (nodes_of (concat (map (children_of i) ts))) =
         image_mset (update_node i (set_children new)) (mset (nodes_of ts)) +
           (if i \<in> set (ids ts) then mset (nodes_of new) else {#})"
  using assms
proof (induction ts rule: forest_induct)
  case Nil
  then show ?case by simp
next
  case (Cons j k cs ts)
  let ?u = "update_node i (set_children new)"
  from Cons.prems have d: "j \<notin> set (ids cs)" "j \<notin> set (ids ts)" "distinct (ids cs)"
    "distinct (ids ts)" "set (ids cs) \<inter> set (ids ts) = {}"
    by auto
  show ?case
  proof (cases "i = j")
    case True
    with d show ?thesis
      by (simp add: update_nodes_absent children_of_absent image_mset_update_node_absent)
  next
    case False
    from d have "\<not> (i \<in> set (ids cs) \<and> i \<in> set (ids ts))"
      by auto
    with False Cons.IH(1) [OF d(3)] Cons.IH(2) [OF d(4)] show ?thesis
      by (auto simp: ac_simps)
  qed
qed

lemma child_ids_update_node:
  "node_id n \<noteq> x \<Longrightarrow>
     map node_id (child_nodes (update_node x (set_children new) n)) = map node_id (child_nodes n)"
  by (cases n) simp

lemma ids_update_node_set_children:
  "set (ids (map (update_node i (set_children new)) ts)) \<subseteq> set (ids ts) \<union> set (ids new)"
  by (induction ts rule: forest_induct) auto

section \<open>Ancestors come first in tree order\<close>

fun ancestors_first :: "node list \<Rightarrow> bool" where
  "ancestors_first [] = True"
| "ancestors_first (x # xs) = ((\<forall>y\<in>set xs. node_id x \<notin> set (ids [y])) \<and> ancestors_first xs)"

lemma ancestors_first_append:
  "ancestors_first (xs @ ys) \<longleftrightarrow>
     ancestors_first xs \<and> ancestors_first ys \<and>
     (\<forall>x\<in>set xs. \<forall>y\<in>set ys. node_id x \<notin> set (ids [y]))"
  by (induction xs) auto

lemma ancestors_first_filter: "ancestors_first xs \<Longrightarrow> ancestors_first (filter P xs)"
  by (induction xs) auto

lemma ancestors_first_nodes_of: "distinct (ids ts) \<Longrightarrow> ancestors_first (nodes_of ts)"
proof (induction ts rule: forest_induct)
  case Nil
  then show ?case by simp
next
  case (Cons i k cs ts)
  from Cons.prems have d: "i \<notin> set (ids cs)" "i \<notin> set (ids ts)" "distinct (ids cs)"
    "distinct (ids ts)" "set (ids cs) \<inter> set (ids ts) = {}"
    by auto
  have sub: "set (ids [y]) \<subseteq> set (ids us)" if "y \<in> set (nodes_of us)" for y us
    using that by (rule ids_subtree_subset)
  have "node_id x \<notin> set (ids [y])"
    if "x \<in> set (nodes_of cs)" "y \<in> set (nodes_of ts)" for x y
    using that d(5) sub [of y ts] node_id_in_ids [of x cs] by auto
  moreover have "i \<notin> set (ids [y])" if "y \<in> set (nodes_of cs) \<union> set (nodes_of ts)" for y
    using that d(1,2) sub [of y cs] sub [of y ts] by auto
  ultimately show ?case
    using Cons.IH d(3,4) by (simp add: ancestors_first_append)
qed

lemma ancestors_first_query:
  "distinct (ids [root]) \<Longrightarrow> ancestors_first (query_selector_all sel root)"
  unfolding query_selector_all_def descendants_def
  by (intro ancestors_first_filter ancestors_first_nodes_of) (simp add: ids_single)

end
