(* ===== verification/DOM_Store.thy ===== *)
theory DOM_Store
  imports DOM_Tree
begin

text \<open>
  The nodes a script can reach: the document's tree and the trees that were
  removed from it while references to their nodes are still held (a
  \<^verbatim>\<open>NodeList\<close> returned by \<^verbatim>\<open>querySelectorAll\<close> is static and keeps
  them). A reference is a node identity. The theory defines dereferencing,
  \<^verbatim>\<open>document.querySelectorAll\<close> (line 3 of
  \<^verbatim>\<open>src/_resources/js/scripts.js\<close>) and the \<^verbatim>\<open>textContent\<close> getter and
  setter on a reference (lines 5, 7 and 9), and shows that the setter keeps
  identities unique and allocated, what each reference points to afterwards,
  and that the getter returns what the setter stored.
\<close>

section \<open>State\<close>

record dom =
  document :: node
  detached :: "node list"
  next_id :: node_id

definition roots :: "'a dom_scheme \<Rightarrow> node list" where
  "roots d = document d # detached d"

definition all_nodes :: "'a dom_scheme \<Rightarrow> node list" where
  "all_nodes d = nodes_of (roots d)"

definition deref :: "'a dom_scheme \<Rightarrow> node_id \<Rightarrow> node option" where
  "deref d i = find (\<lambda>n. node_id n = i) (all_nodes d)"

text \<open>
  Well-formedness: no two nodes share an identity, and every identity in use
  is below the next one to be allocated.
\<close>

definition wf_dom :: "'a dom_scheme \<Rightarrow> bool" where
  "wf_dom d \<longleftrightarrow> distinct (ids (roots d)) \<and> (\<forall>i\<in>set (ids (roots d)). i < next_id d)"

lemma wf_dom_distinct: "wf_dom d \<Longrightarrow> distinct (ids (roots d))"
  by (simp add: wf_dom_def)

lemma wf_dom_allocated: "wf_dom d \<Longrightarrow> i \<in> set (ids (roots d)) \<Longrightarrow> i < next_id d"
  by (simp add: wf_dom_def)

lemma deref_SomeD: "deref d i = Some n \<Longrightarrow> n \<in> set (all_nodes d) \<and> node_id n = i"
  by (auto simp: deref_def dest: find_SomeD)

lemma deref_eq_None_iff: "deref d i = None \<longleftrightarrow> i \<notin> set (ids (roots d))"
  by (auto simp: deref_def all_nodes_def find_None_iff set_ids)

lemma deref_SomeI:
  "wf_dom d \<Longrightarrow> n \<in> set (all_nodes d) \<Longrightarrow> deref d (node_id n) = Some n"
  unfolding deref_def all_nodes_def wf_dom_def ids_def
  by (intro find_key_distinct) simp_all

lemma deref_eq_Some_iff:
  "wf_dom d \<Longrightarrow> deref d i = Some n \<longleftrightarrow> n \<in> set (all_nodes d) \<and> node_id n = i"
  by (auto dest: deref_SomeD deref_SomeI)

lemma deref_allocated: "wf_dom d \<Longrightarrow> deref d i = Some n \<Longrightarrow> i < next_id d"
  by (auto dest!: deref_SomeD intro!: wf_dom_allocated simp: all_nodes_def set_ids)

lemma deref_subtree_allocated:
  assumes "wf_dom d" and "deref d i = Some n" and "j \<in> set (ids [n])"
  shows "j < next_id d"
proof -
  from assms(2) have "n \<in> set (nodes_of (roots d))"
    by (auto dest: deref_SomeD simp: all_nodes_def)
  then have "set (ids [n]) \<subseteq> set (ids (roots d))"
    by (rule ids_subtree_subset)
  with assms(1,3) show ?thesis
    by (auto intro: wf_dom_allocated)
qed

lemma child_in_all_nodes:
  "deref d j = Some n \<Longrightarrow> c \<in> set (child_nodes n) \<Longrightarrow> c \<in> set (all_nodes d)"
  unfolding all_nodes_def by (auto dest!: deref_SomeD intro: child_in_nodes_of simp: all_nodes_def)

section \<open>querySelectorAll on the document\<close>

text \<open>The static list of references \<^verbatim>\<open>document.querySelectorAll\<close> returns.\<close>

definition document_query_selector_all :: "selector \<Rightarrow> 'a dom_scheme \<Rightarrow> node_id list" where
  "document_query_selector_all sel d = map node_id (query_selector_all sel (document d))"

lemma query_nodes_in_store:
  "n \<in> set (query_selector_all sel (document d)) \<Longrightarrow> n \<in> set (all_nodes d)"
  using query_selector_all_subset [of sel "document d"]
  by (auto simp: all_nodes_def roots_def inclusive_descendants_conv)

lemma query_deref:
  assumes "wf_dom d" and "i \<in> set (document_query_selector_all sel d)"
  obtains n where "deref d i = Some n" and "matches sel n"
    and "n \<in> set (descendants (document d))"
proof -
  from assms(2) obtain n where n: "n \<in> set (query_selector_all sel (document d))" "node_id n = i"
    by (auto simp: document_query_selector_all_def)
  then have "deref d i = Some n"
    using assms(1) by (auto dest: query_nodes_in_store deref_SomeI)
  with n that show thesis
    by (auto simp: query_selector_all_def)
qed

lemma query_membership:
  assumes "wf_dom d" and "m \<in> set (descendants (document d))"
  shows "node_id m \<in> set (document_query_selector_all sel d) \<longleftrightarrow> matches sel m"
proof
  assume "node_id m \<in> set (document_query_selector_all sel d)"
  then obtain q where q: "q \<in> set (descendants (document d))" "matches sel q" "node_id q = node_id m"
    by (auto simp: document_query_selector_all_def query_selector_all_def)
  have "set (descendants (document d)) \<subseteq> set (nodes_of (roots d))"
    by (auto simp: roots_def inclusive_descendants_conv)
  with q assms have "q = m"
    using same_id_same_node [OF wf_dom_distinct [OF assms(1)], of q m] by auto
  with q show "matches sel m"
    by simp
next
  assume "matches sel m"
  with assms(2) show "node_id m \<in> set (document_query_selector_all sel d)"
    by (auto simp: document_query_selector_all_def query_selector_all_def)
qed

lemma root_not_queried:
  assumes "wf_dom d"
  shows "node_id (document d) \<notin> set (document_query_selector_all sel d)"
proof -
  from assms have "node_id (document d) \<notin> set (ids (child_nodes (document d)))"
    by (auto simp: wf_dom_def roots_def ids_Cons [of "document d" "detached d"] ids_single)
  moreover have "set (document_query_selector_all sel d) \<subseteq> set (ids (child_nodes (document d)))"
    by (auto simp: document_query_selector_all_def query_selector_all_def descendants_def ids_def)
  ultimately show ?thesis
    by blast
qed

lemma distinct_document_query:
  "wf_dom d \<Longrightarrow> distinct (document_query_selector_all sel d)"
proof -
  assume "wf_dom d"
  then have "distinct (ids (child_nodes (document d)))"
    by (auto simp: wf_dom_def roots_def ids_Cons [of "document d"] ids_single)
  then have "distinct (map node_id (filter (matches sel) (descendants (document d))))"
    by (simp add: descendants_def ids_def distinct_map_filter)
  then show ?thesis
    by (simp add: document_query_selector_all_def query_selector_all_def)
qed

section \<open>The textContent getter on a reference\<close>

text \<open>
  \<open>None\<close> is \<^verbatim>\<open>null\<close>. A reference to no node cannot arise in JavaScript;
  the model reads it as \<^verbatim>\<open>null\<close> too.
\<close>

definition get_text_content :: "node_id \<Rightarrow> 'a dom_scheme \<Rightarrow> jsstring option" where
  "get_text_content i d = (case deref d i of None \<Rightarrow> None | Some n \<Rightarrow> text_content n)"

lemma get_text_content_deref [simp]:
  "deref d i = Some n \<Longrightarrow> get_text_content i d = text_content n"
  by (simp add: get_text_content_def)

section \<open>The textContent setter on a reference\<close>

text \<open>
  On an element the setter replaces all children by one new text node, or by
  nothing when the string is empty; the old children leave the tree and stay
  reachable as roots of their own. On a text or comment node it replaces the
  data. On a document or doctype it does nothing.
\<close>

definition new_text_nodes :: "node_id \<Rightarrow> jsstring \<Rightarrow> node list" where
  "new_text_nodes fresh s = (if s = [] then [] else [Node fresh (Text s) []])"

definition string_replace_all :: "jsstring \<Rightarrow> node_id \<Rightarrow> 'a dom_scheme \<Rightarrow> 'a dom_scheme" where
  "string_replace_all s i d =
     (let new = new_text_nodes (next_id d) s;
          removed = concat (map (children_of i) (roots d))
      in d\<lparr>document := update_node i (set_children new) (document d),
           detached := map (update_node i (set_children new)) (detached d) @ removed,
           next_id := next_id d + length new\<rparr>)"

definition set_data :: "jsstring \<Rightarrow> node \<Rightarrow> node" where
  "set_data s n =
     Node (node_id n)
       (case kind n of Text _ \<Rightarrow> Text s | Comment _ \<Rightarrow> Comment s | k \<Rightarrow> k)
       (child_nodes n)"

definition replace_data :: "jsstring \<Rightarrow> node_id \<Rightarrow> 'a dom_scheme \<Rightarrow> 'a dom_scheme" where
  "replace_data s i d =
     d\<lparr>document := update_node i (set_data s) (document d),
       detached := map (update_node i (set_data s)) (detached d)\<rparr>"

definition set_text_content :: "node_id \<Rightarrow> jsstring \<Rightarrow> 'a dom_scheme \<Rightarrow> 'a dom_scheme" where
  "set_text_content i s d =
     (case deref d i of
        None \<Rightarrow> d
      | Some n \<Rightarrow>
          (case kind n of
             Element _ _ \<Rightarrow> string_replace_all s i d
           | Text _ \<Rightarrow> replace_data s i d
           | Comment _ \<Rightarrow> replace_data s i d
           | _ \<Rightarrow> d))"

lemmas [dom_defs] = roots_def all_nodes_def deref_def document_query_selector_all_def
  query_selector_all_def get_text_content_def new_text_nodes_def string_replace_all_def
  set_data_def replace_data_def set_text_content_def

section \<open>The setter on an element\<close>

lemma nodes_of_new_text_nodes [simp]: "nodes_of (new_text_nodes fresh s) = new_text_nodes fresh s"
  by (simp add: new_text_nodes_def)

lemma ids_new_text_nodes: "set (ids (new_text_nodes fresh s)) \<subseteq> {fresh}"
  by (simp add: new_text_nodes_def)

lemma roots_string_replace_all:
  "roots (string_replace_all s i d) =
     map (update_node i (set_children (new_text_nodes (next_id d) s))) (roots d) @
     concat (map (children_of i) (roots d))"
  by (simp add: string_replace_all_def roots_def Let_def)

lemma next_id_string_replace_all:
  "next_id (string_replace_all s i d) = next_id d + length (new_text_nodes (next_id d) s)"
  by (simp add: string_replace_all_def Let_def)

lemma more_string_replace_all [simp]:
  "dom.more (string_replace_all s i d) = dom.more d"
  by (simp add: string_replace_all_def Let_def)

lemma mset_all_nodes_string_replace_all:
  assumes "wf_dom d"
  shows "mset (all_nodes (string_replace_all s i d)) =
     image_mset (update_node i (set_children (new_text_nodes (next_id d) s))) (mset (all_nodes d)) +
     (if i \<in> set (ids (roots d)) then mset (new_text_nodes (next_id d) s) else {#})"
  using mset_nodes_update [OF wf_dom_distinct [OF assms], of i "new_text_nodes (next_id d) s"]
  by (simp add: all_nodes_def roots_string_replace_all)

lemma mset_ids_string_replace_all:
  assumes "wf_dom d"
  shows "mset (ids (roots (string_replace_all s i d))) =
     mset (ids (roots d)) +
     (if i \<in> set (ids (roots d)) then mset (map node_id (new_text_nodes (next_id d) s)) else {#})"
proof -
  have "mset (ids (roots (string_replace_all s i d))) =
      image_mset node_id (mset (all_nodes (string_replace_all s i d)))"
    by (simp add: ids_def all_nodes_def)
  also have "\<dots> = image_mset node_id (mset (all_nodes d)) +
     (if i \<in> set (ids (roots d)) then mset (map node_id (new_text_nodes (next_id d) s)) else {#})"
    by (simp add: mset_all_nodes_string_replace_all [OF assms] image_mset.compositionality comp_def)
  finally show ?thesis
    by (simp add: ids_def all_nodes_def)
qed

lemma wf_dom_string_replace_all:
  assumes "wf_dom d"
  shows "wf_dom (string_replace_all s i d)"
proof -
  let ?d' = "string_replace_all s i d"
  let ?new = "if i \<in> set (ids (roots d)) then map node_id (new_text_nodes (next_id d) s) else []"
  have eq: "mset (ids (roots ?d')) = mset (ids (roots d) @ ?new)"
    by (simp add: mset_ids_string_replace_all [OF assms])
  have new: "set ?new \<subseteq> {next_id d}" "distinct ?new" "?new \<noteq> [] \<longrightarrow> next_id ?d' = Suc (next_id d)"
    by (auto simp: new_text_nodes_def next_id_string_replace_all)
  from assms have old: "distinct (ids (roots d))" "\<forall>j\<in>set (ids (roots d)). j < next_id d"
    by (auto simp: wf_dom_def)
  then have "distinct (ids (roots d) @ ?new)"
    by (auto simp: new_text_nodes_def)
  with eq have "distinct (ids (roots ?d'))"
    by (metis mset_eq_imp_distinct_iff)
  moreover from eq have "set (ids (roots ?d')) = set (ids (roots d) @ ?new)"
    by (rule mset_eq_setD)
  with old new have "\<forall>j\<in>set (ids (roots ?d')). j < next_id ?d'"
    by (auto simp: next_id_string_replace_all new_text_nodes_def split: if_splits)
  ultimately show ?thesis
    by (simp add: wf_dom_def)
qed

lemma deref_string_replace_all:
  assumes "wf_dom d" and "deref d k = Some m"
  shows "deref (string_replace_all s i d) k =
     Some (update_node i (set_children (new_text_nodes (next_id d) s)) m)"
proof -
  let ?u = "update_node i (set_children (new_text_nodes (next_id d) s))"
  from assms(2) have m: "m \<in> set (all_nodes d)" "node_id m = k"
    by (auto dest: deref_SomeD)
  then have "?u m \<in># image_mset ?u (mset (all_nodes d))"
    by simp
  then have "?u m \<in># mset (all_nodes (string_replace_all s i d))"
    by (simp add: mset_all_nodes_string_replace_all [OF assms(1)])
  then have "?u m \<in> set (all_nodes (string_replace_all s i d))"
    by simp
  with wf_dom_string_replace_all [OF assms(1)]
  have "deref (string_replace_all s i d) (node_id (?u m)) = Some (?u m)"
    by (rule deref_SomeI)
  with m(2) show ?thesis
    by simp
qed

lemma deref_string_replace_all_other:
  assumes "wf_dom d" and "deref d k = Some m" and "i \<notin> set (ids [m])"
  shows "deref (string_replace_all s i d) k = Some m"
  using deref_string_replace_all [OF assms(1,2)] assms(3) by (simp add: update_node_absent)

lemma deref_string_replace_all_self:
  assumes "wf_dom d" and "deref d i = Some n"
  shows "deref (string_replace_all s i d) i =
     Some (Node i (kind n) (new_text_nodes (next_id d) s))"
proof -
  from assms(2) have "node_id n = i" by (auto dest: deref_SomeD)
  then have "update_node i (set_children (new_text_nodes (next_id d) s)) n =
      Node i (kind n) (new_text_nodes (next_id d) s)"
    by (cases n) simp
  with deref_string_replace_all [OF assms] show ?thesis by simp
qed

lemma descendant_text_new_text_nodes [simp]:
  "descendant_text (Node i k (new_text_nodes fresh s)) = s"
  by (simp add: new_text_nodes_def)

section \<open>The setter on character data, and on any reference\<close>

lemma set_data_simps [simp]:
  "node_id (set_data s n) = node_id n"
  "child_nodes (set_data s n) = child_nodes n"
  by (simp_all add: set_data_def)

lemma ids_update_node_keep:
  assumes "\<And>m. node_id (f m) = node_id m" and "\<And>m. child_nodes (f m) = child_nodes m"
  shows "ids (map (update_node i f) ts) = ids ts"
proof (induction ts rule: forest_induct)
  case Nil
  show ?case by simp
next
  case (Cons j k cs ts)
  show ?case
  proof (cases "i = j")
    case True
    have "ids (f (Node j k cs) # map (update_node i f) ts) =
        ids [f (Node j k cs)] @ ids (map (update_node i f) ts)"
      by (rule ids_Cons)
    with True Cons.IH(2) show ?thesis
      by (simp add: ids_single assms)
  next
    case False
    with Cons show ?thesis by simp
  qed
qed

lemma roots_replace_data:
  "roots (replace_data s i d) = map (update_node i (set_data s)) (roots d)"
  by (simp add: replace_data_def roots_def)

lemma wf_dom_replace_data: "wf_dom d \<Longrightarrow> wf_dom (replace_data s i d)"
  by (simp add: wf_dom_def roots_replace_data ids_update_node_keep) (simp add: replace_data_def)

lemma set_text_content_element:
  "deref d i = Some n \<Longrightarrow> is_element n \<Longrightarrow> set_text_content i s d = string_replace_all s i d"
  by (simp add: set_text_content_def is_element_def split: kind.splits)

lemma wf_dom_set_text_content: "wf_dom d \<Longrightarrow> wf_dom (set_text_content i s d)"
  by (simp add: set_text_content_def wf_dom_string_replace_all wf_dom_replace_data
      split: option.splits kind.splits)

lemma more_set_text_content [simp]: "dom.more (set_text_content i s d) = dom.more d"
  by (simp add: set_text_content_def replace_data_def split: option.splits kind.splits)

section \<open>References in tree order\<close>

text \<open>
  \<open>parents_first d xs\<close>: no reference of the list points into the subtree of
  a later one. The list \<^verbatim>\<open>document.querySelectorAll\<close> returns is of this
  kind, because it is in tree order.
\<close>

definition subtree_ids :: "'a dom_scheme \<Rightarrow> node_id \<Rightarrow> node_id set" where
  "subtree_ids d k = (case deref d k of None \<Rightarrow> {} | Some n \<Rightarrow> set (ids [n]))"

fun parents_first :: "'a dom_scheme \<Rightarrow> node_id list \<Rightarrow> bool" where
  "parents_first d [] = True"
| "parents_first d (x # xs) = ((\<forall>y\<in>set xs. x \<notin> subtree_ids d y) \<and> parents_first d xs)"

lemma subtree_ids_deref [simp]: "deref d k = Some n \<Longrightarrow> subtree_ids d k = set (ids [n])"
  by (simp add: subtree_ids_def)

lemma parents_first_cong:
  "(\<And>y. y \<in> set xs \<Longrightarrow> deref d' y = deref d y) \<Longrightarrow> parents_first d' xs = parents_first d xs"
  by (induction xs) (auto simp: subtree_ids_def)

lemma parents_first_nodes:
  assumes "wf_dom d" and "set ns \<subseteq> set (all_nodes d)" and "ancestors_first ns"
  shows "parents_first d (map node_id ns)"
  using assms(2,3)
proof (induction ns)
  case Nil
  show ?case by simp
next
  case (Cons n ns)
  have "subtree_ids d (node_id y) = set (ids [y])" if "y \<in> set ns" for y
    using that Cons.prems(1) assms(1) by (auto dest: deref_SomeI)
  with Cons show ?case
    by auto
qed

lemma parents_first_query:
  assumes "wf_dom d"
  shows "parents_first d (document_query_selector_all sel d)"
  unfolding document_query_selector_all_def
proof (rule parents_first_nodes [OF assms])
  show "set (query_selector_all sel (document d)) \<subseteq> set (all_nodes d)"
    by (auto dest: query_nodes_in_store)
  from assms have "distinct (ids [document d])"
    by (auto simp: wf_dom_def roots_def dest: distinct_ids_member)
  then show "ancestors_first (query_selector_all sel (document d))"
    by (rule ancestors_first_query)
qed

lemma query_elements:
  assumes "wf_dom d" and "x \<in> set (document_query_selector_all sel d)"
  shows "\<exists>n. deref d x = Some n \<and> is_element n"
  using assms by (auto elim!: query_deref dest: matches_is_element)

lemma deref_query:
  assumes "wf_dom d"
  shows "map (deref d) (document_query_selector_all sel d) =
    map Some (filter (matches sel) (descendants (document d)))"
proof -
  have "deref d (node_id n) = Some n" if "n \<in> set (query_selector_all sel (document d))" for n
    using assms that by (auto dest: query_nodes_in_store deref_SomeI)
  then show ?thesis
    by (simp add: document_query_selector_all_def query_selector_all_def)
qed

lemma deref_next_id: "wf_dom d \<Longrightarrow> deref d (next_id d) = None"
  using wf_dom_allocated [of d "next_id d"] by (auto simp: deref_eq_None_iff)

lemma deref_new_text_node:
  assumes "wf_dom d" and "deref d i = Some n" and "s \<noteq> []"
  shows "deref (string_replace_all s i d) (next_id d) = Some (Node (next_id d) (Text s) [])"
proof -
  let ?d' = "string_replace_all s i d" and ?t = "Node (next_id d) (Text s) []"
  from assms have "deref ?d' i = Some (Node i (kind n) [?t])"
    by (simp add: deref_string_replace_all_self new_text_nodes_def)
  then have "?t \<in> set (all_nodes ?d')"
    by (rule child_in_all_nodes) simp
  with wf_dom_string_replace_all [OF assms(1)] have "deref ?d' (node_id ?t) = Some ?t"
    by (rule deref_SomeI)
  then show ?thesis
    by simp
qed

section \<open>A small store\<close>

definition sample_dom :: dom where
  "sample_dom =
     \<lparr>document =
        Node 0 Document
          [Node 1 (Element (js_lit ''span'') [js_lit ''quarto-category-count''])
             [Node 2 (Text (js_lit ''(5)'')) []]],
      detached = [], next_id = 3\<rparr>"

lemma sample_wf: "wf_dom sample_dom"
  by (simp add: sample_dom_def wf_dom_def roots_def)

lemma sample_deref:
  "deref sample_dom 1 =
     Some (Node 1 (Element (js_lit ''span'') [js_lit ''quarto-category-count''])
       [Node 2 (Text (js_lit ''(5)'')) []])"
  by (simp add: sample_dom_def deref_def all_nodes_def roots_def)

lemma sample_is_element:
  "is_element (Node 1 (Element (js_lit ''span'') [js_lit ''quarto-category-count''])
     [Node 2 (Text (js_lit ''(5)'')) []])"
  by (simp add: is_element_def)

section \<open>What the setter and the query guarantee\<close>

text \<open>
  C21. Round trip of the setter and the getter: after \<^verbatim>\<open>textContent\<close> of an
  element has been set to a string, reading it gives that string.
\<close>

theorem set_then_get_text_content:
  assumes "wf_dom d" and "deref d i = Some n" and "is_element n"
  shows "get_text_content i (set_text_content i s d) = Some s"
proof -
  from assms(2,3) have "set_text_content i s d = string_replace_all s i d"
    by (simp add: set_text_content_def is_element_def split: kind.splits)
  moreover have "is_element (Node i (kind n) (new_text_nodes (next_id d) s))"
    using assms(3) by (simp add: is_element_def)
  ultimately show ?thesis
    using deref_string_replace_all_self [OF assms(1,2), of s]
    by (simp add: text_content_element)
qed

theorem set_then_get_text_content_witness:
  "wf_dom sample_dom \<and>
   deref sample_dom 1 =
     Some (Node 1 (Element (js_lit ''span'') [js_lit ''quarto-category-count''])
       [Node 2 (Text (js_lit ''(5)'')) []]) \<and>
   is_element (Node 1 (Element (js_lit ''span'') [js_lit ''quarto-category-count''])
     [Node 2 (Text (js_lit ''(5)'')) []]) \<and>
   get_text_content 1 (set_text_content 1 (js_lit ''5'') sample_dom) = Some (js_lit ''5'')"
  using set_then_get_text_content [OF sample_wf sample_deref sample_is_element]
    sample_wf sample_deref sample_is_element
  by (intro conjI)

text \<open>
  C22. Allocation in the setter. On an element the setter keeps the store
  well-formed and loses no identity (the children it removes stay in the
  store); for a string that is not empty it creates one node, the text node
  with that string, under the next identity, which no node had before, and
  advances the counter by one; for the empty string it creates nothing.
\<close>

theorem set_text_content_allocates:
  assumes "wf_dom d" and "deref d i = Some n" and "is_element n"
  shows "wf_dom (set_text_content i s d) \<and>
    deref d (next_id d) = None \<and>
    mset (ids (roots (set_text_content i s d))) =
      mset (ids (roots d)) + (if s = [] then {#} else {#next_id d#}) \<and>
    next_id (set_text_content i s d) = (if s = [] then next_id d else Suc (next_id d)) \<and>
    (s \<noteq> [] \<longrightarrow>
       deref (set_text_content i s d) (next_id d) = Some (Node (next_id d) (Text s) []))"
proof -
  have "i \<in> set (ids (roots d))"
    using assms(2) deref_eq_None_iff [of d i] by simp
  with assms show ?thesis
    by (simp add: set_text_content_element wf_dom_string_replace_all deref_next_id
        mset_ids_string_replace_all next_id_string_replace_all deref_new_text_node)
      (simp add: new_text_nodes_def)
qed

theorem set_text_content_allocates_witness:
  "wf_dom sample_dom \<and>
   deref sample_dom 1 =
     Some (Node 1 (Element (js_lit ''span'') [js_lit ''quarto-category-count''])
       [Node 2 (Text (js_lit ''(5)'')) []]) \<and>
   is_element (Node 1 (Element (js_lit ''span'') [js_lit ''quarto-category-count''])
     [Node 2 (Text (js_lit ''(5)'')) []]) \<and>
   wf_dom (set_text_content 1 (js_lit ''5'') sample_dom) \<and>
   deref sample_dom (next_id sample_dom) = None \<and>
   next_id (set_text_content 1 (js_lit ''5'') sample_dom) = Suc (next_id sample_dom) \<and>
   deref (set_text_content 1 (js_lit ''5'') sample_dom) (next_id sample_dom) =
     Some (Node (next_id sample_dom) (Text (js_lit ''5'')) [])"
  using set_text_content_allocates [OF sample_wf sample_deref sample_is_element, of "js_lit ''5''"]
    sample_wf sample_deref sample_is_element
  by simp

text \<open>
  C23. \<^verbatim>\<open>document.querySelectorAll\<close> is sound and complete: the references
  it returns point, in tree order, to exactly the descendants of the document
  that match the selector, all of them elements; no reference occurs twice,
  and none points into the subtree of a later one.
\<close>

theorem document_query_result:
  assumes "wf_dom d"
  shows "map (deref d) (document_query_selector_all sel d) =
      map Some (filter (matches sel) (descendants (document d))) \<and>
    (\<forall>n\<in>set (filter (matches sel) (descendants (document d))). is_element n) \<and>
    distinct (document_query_selector_all sel d) \<and>
    parents_first d (document_query_selector_all sel d)"
  using assms
  by (auto simp: deref_query distinct_document_query parents_first_query dest: matches_is_element)

theorem document_query_result_witness:
  "wf_dom sample_dom \<and>
   map (deref sample_dom)
     (document_query_selector_all (Class_selector (js_lit ''quarto-category-count'')) sample_dom) =
     map Some (filter (matches (Class_selector (js_lit ''quarto-category-count'')))
       (descendants (document sample_dom))) \<and>
   document_query_selector_all (Class_selector (js_lit ''quarto-category-count'')) sample_dom = [1]"
proof -
  have "document_query_selector_all (Class_selector (js_lit ''quarto-category-count'')) sample_dom = [1]"
    by (simp add: sample_dom_def document_query_selector_all_def query_selector_all_def)
  with document_query_result [OF sample_wf] sample_wf show ?thesis
    by blast
qed

end
