(* ===== verification/Badge_Text.thy ===== *)
theory Badge_Text
  imports JS_String
begin

text \<open>
  The text the script writes back into a badge, as a function of the text it
  read: lines 6 to 10 of \<^verbatim>\<open>src/_resources/js/scripts.js\<close> with the two
  assignments read as the two values of one conditional expression.
\<close>

definition new_text :: "'a list \<Rightarrow> 'a list" where
  "new_text text = (if 1 < js_length text then js_slice text 1 (- 1) else [])"

lemma new_text_conv_butlast_tl: "new_text t = butlast (tl t)"
  by (cases t) (simp_all add: new_text_def js_slice_1_minus_1)

lemma new_text_conv_take_drop: "new_text t = take (length t - 2) (drop 1 t)"
  by (simp only: new_text_conv_butlast_tl butlast_tl_conv_take_drop)

lemma new_text_Nil [simp]: "new_text [] = []"
  by (simp add: new_text_def)

lemma new_text_single [simp]: "new_text [c] = []"
  by (simp add: new_text_def)

lemma new_text_Cons_snoc [simp]: "new_text (l # s @ [r]) = s"
  by (simp add: new_text_conv_butlast_tl)

lemma length_new_text [simp]: "length (new_text t) = length t - 2"
  by (simp add: new_text_conv_butlast_tl)

lemma new_text_eq_Nil_iff: "new_text t = [] \<longleftrightarrow> length t \<le> 2"
proof -
  have "new_text t = [] \<longleftrightarrow> length (new_text t) = 0"
    by (simp only: length_0_conv)
  also have "\<dots> \<longleftrightarrow> length t \<le> 2"
    by (simp only: length_new_text) arith
  finally show ?thesis .
qed

lemma new_text_eq_self_iff: "new_text t = t \<longleftrightarrow> t = []"
proof
  assume "new_text t = t"
  then have "length (new_text t) = length t"
    by simp
  then have "length t - 2 = length t"
    by (simp only: length_new_text)
  then have "length t = 0"
    by arith
  then show "t = []"
    by simp
qed simp

lemma sublist_new_text: "sublist (new_text t) t"
  by (simp add: new_text_def sublist_js_slice)

text \<open>Applying the rewrite \<open>n\<close> times removes \<open>n\<close> code units from each end.\<close>

lemma new_text_funpow: "(new_text ^^ n) t = take (length t - 2 * n) (drop n t)"
proof (induction n)
  case 0
  show ?case by simp
next
  case (Suc n)
  let ?xs = "take (length t - 2 * n) (drop n t)"
  have len: "length ?xs = length t - 2 * n"
    by (auto simp: min_def)
  have "new_text ?xs =
      take (length t - 2 * n - 2) (take (length t - 2 * n - 1) (drop (Suc n) t))"
    unfolding new_text_conv_take_drop len by (simp add: drop_take)
  also have "\<dots> = take (length t - 2 * Suc n) (drop (Suc n) t)"
    by (simp add: min_def)
  finally have "new_text ?xs = take (length t - 2 * Suc n) (drop (Suc n) t)" .
  with Suc show ?case by simp
qed

section \<open>The rewrite of one badge text\<close>

text \<open>
  C5. A text of more than one code unit is rewritten to the same text without
  its first and its last code unit.
\<close>

theorem new_text_long:
  assumes "1 < length t"
  shows "new_text t = butlast (tl t)"
  using assms by (simp add: new_text_def js_slice_1_minus_1)

theorem new_text_long_witness:
  "1 < length (js_lit ''(5)'') \<and> new_text (js_lit ''(5)'') = butlast (tl (js_lit ''(5)''))"
proof -
  have l: "1 < length (js_lit ''(5)'')"
    by simp
  from new_text_long [OF l] l show ?thesis
    by (intro conjI)
qed

text \<open>
  C6. A text of at most one code unit is rewritten to the empty string.
\<close>

theorem new_text_short:
  assumes "length t \<le> 1"
  shows "new_text t = []"
  using assms by (simp add: new_text_def)

theorem new_text_short_witness:
  "length (js_lit ''('') \<le> 1 \<and> new_text (js_lit ''('') = []"
proof -
  have l: "length (js_lit ''('') \<le> 1"
    by simp
  from new_text_short [OF l] l show ?thesis
    by (intro conjI)
qed

text \<open>
  C27. Rewriting twice gives the same as rewriting once exactly for the texts
  of at most two code units: on every longer text the second rewrite removes
  more.
\<close>

theorem new_text_twice_iff: "new_text (new_text t) = new_text t \<longleftrightarrow> length t \<le> 2"
proof
  assume "new_text (new_text t) = new_text t"
  then have "length (new_text (new_text t)) = length (new_text t)"
    by simp
  then show "length t \<le> 2"
    by (simp add: new_text_def js_slice_1_minus_1 split: if_splits)
next
  assume "length t \<le> 2"
  then have "new_text t = []"
    by (simp add: new_text_eq_Nil_iff)
  then show "new_text (new_text t) = new_text t"
    by (simp add: new_text_def)
qed

text \<open>
  C28. \<open>n\<close> rewrites in a row remove \<open>n\<close> code units from each end of the
  text, as far as it reaches.
\<close>

theorem new_text_iterated:
  "(new_text ^^ n) t = js_slice t (int n) (int (length t) - int n)"
proof (cases "n \<le> length t")
  case True
  then have "rel_index (int (length t)) (int n) = n"
    "rel_index (int (length t)) (int (length t) - int n) = length t - n"
    by (simp_all add: rel_index_def)
  then have "js_slice t (int n) (int (length t) - int n) = take (length t - n - n) (drop n t)"
    by (simp only: js_slice_conv_take_drop)
  then show ?thesis
    by (simp add: new_text_funpow mult_2)
next
  case False
  then have "rel_index (int (length t)) (int n) = length t"
    by (simp add: rel_index_def)
  then have "js_slice t (int n) (int (length t) - int n) = []"
    by (simp add: js_slice_conv_take_drop)
  with False show ?thesis
    by (simp add: new_text_funpow)
qed

end
