(* ===== verification/Handler.thy ===== *)
theory Handler
  imports DOM_Store Badge_Text
begin

text \<open>
  The listener of \<^verbatim>\<open>src/_resources/js/scripts.js\<close>: the callback given to
  \<^verbatim>\<open>forEach\<close> (lines 4 to 11) as \<open>strip_count\<close>, and the function given
  to \<^verbatim>\<open>addEventListener\<close> (lines 1 to 12) as \<open>on_dom_content_loaded\<close>. The
  state is the page: the reachable nodes and the lines written to the console.
  The one exception the statements can raise is the \<^verbatim>\<open>TypeError\<close> of
  \<^verbatim>\<open>text.length\<close> when \<^verbatim>\<open>textContent\<close> is \<^verbatim>\<open>null\<close>.
\<close>

section \<open>State and definitions\<close>

datatype js_error = TypeError

text \<open>
  A statement completes normally with the new state, or throws: then the
  exception comes with the state at the throw, which is what a caller that
  catches or reports the exception goes on with.
\<close>

type_synonym 's completion = "(js_error \<times> 's, 's) result"

record page = dom +
  console :: "jsstring list"

definition console_log :: "jsstring \<Rightarrow> 'a page_scheme \<Rightarrow> 'a page_scheme" where
  "console_log s p = p\<lparr>console := console p @ [s]\<rparr>"

definition category_count_selector :: selector where
  "category_count_selector = Class_selector (js_lit ''quarto-category-count'')"

definition strip_count :: "node_id \<Rightarrow> 'a dom_scheme \<Rightarrow> 'a dom_scheme completion" where
  "strip_count badge d =
     (case get_text_content badge d of
        None \<Rightarrow> Throw (TypeError, d)
      | Some text \<Rightarrow>
          if 1 < js_length text
          then Normal (set_text_content badge (js_slice text 1 (- 1)) d)
          else Normal (set_text_content badge [] d))"

definition on_dom_content_loaded :: "'a page_scheme \<Rightarrow> 'a page_scheme completion" where
  "on_dom_content_loaded p =
     (let p1 = console_log (js_lit ''X'') p;
          counts = document_query_selector_all category_count_selector p1
      in for_each counts strip_count p1)"

section \<open>The console\<close>

lemma console_log_dom [simp]:
  "document (console_log s p) = document p"
  "detached (console_log s p) = detached p"
  "next_id (console_log s p) = next_id p"
  "console (console_log s p) = console p @ [s]"
  by (simp_all add: console_log_def)

lemma console_log_frame [simp]:
  "roots (console_log s p) = roots p"
  "deref (console_log s p) = deref p"
  "wf_dom (console_log s p) = wf_dom p"
  "get_text_content i (console_log s p) = get_text_content i p"
  "document_query_selector_all sel (console_log s p) = document_query_selector_all sel p"
  by (simp_all add: roots_def deref_def all_nodes_def wf_dom_def get_text_content_def
      document_query_selector_all_def fun_eq_iff)

lemma console_set_text_content [simp]: "console (set_text_content i s p) = console p"
  by (simp add: set_text_content_def string_replace_all_def replace_data_def Let_def
      split: option.splits kind.splits)

section \<open>One call of the callback\<close>

lemma strip_count_conv:
  "strip_count badge d =
     (case get_text_content badge d of
        None \<Rightarrow> Throw (TypeError, d)
      | Some t \<Rightarrow> Normal (set_text_content badge (new_text t) d))"
  by (simp add: strip_count_def new_text_def split: option.splits)

lemma strip_count_element:
  assumes "deref d x = Some n" and "is_element n"
  shows "strip_count x d = Normal (string_replace_all (new_text (descendant_text n)) x d)"
  using assms by (simp add: strip_count_conv text_content_element set_text_content_element)

lemma strip_count_null:
  "get_text_content badge d = None \<Longrightarrow> strip_count badge d = Throw (TypeError, d)"
  by (simp add: strip_count_def)

lemma strip_count_NormalD:
  "strip_count badge d = Normal d' \<Longrightarrow>
     \<exists>t. get_text_content badge d = Some t \<and> d' = set_text_content badge (new_text t) d"
  by (auto simp: strip_count_conv split: option.splits)

text \<open>
  \<open>rewritten n r\<close>: \<open>r\<close> is the element \<open>n\<close> after the callback ran on
  it: the same node, with one text child that holds the rewritten text of
  \<open>n\<close>, or with no child when that text is empty.
\<close>

definition rewritten :: "node \<Rightarrow> node \<Rightarrow> bool" where
  "rewritten n r \<longleftrightarrow>
     node_id r = node_id n \<and> kind r = kind n \<and>
     (\<exists>fresh. child_nodes r = new_text_nodes fresh (new_text (descendant_text n)))"

lemma rewritten_text_content:
  assumes "rewritten n r" and "is_element n"
  shows "text_content r = Some (new_text (descendant_text n))"
proof -
  from assms(1) obtain fresh where
    "r = Node (node_id n) (kind n) (new_text_nodes fresh (new_text (descendant_text n)))"
    by (cases r) (auto simp: rewritten_def)
  with assms(2) show ?thesis
    by (simp add: text_content_def is_element_def split: kind.splits)
qed

lemma rewritten_get_text_content:
  assumes "deref d x = Some n" and "is_element n" and "deref d' x = Some r" and "rewritten n r"
  shows "get_text_content x d' = map_option new_text (get_text_content x d)"
  using assms by (simp add: rewritten_text_content text_content_element)

text \<open>
  On an element of a well-formed page the callback completes normally; the
  reference then points to the rewritten element, and every reference to a
  node that does not contain the element points to what it pointed to before.
\<close>

lemma strip_count_step:
  assumes "wf_dom d" and "deref d x = Some n" and "is_element n"
  shows "\<exists>d1 r. strip_count x d = Normal d1 \<and> wf_dom d1 \<and>
           deref d1 x = Some r \<and> rewritten n r \<and>
           set (ids [r]) \<subseteq> {x, next_id d} \<and>
           (\<forall>k m. deref d k = Some m \<longrightarrow> x \<notin> set (ids [m]) \<longrightarrow> deref d1 k = Some m)"
proof -
  let ?s = "new_text (descendant_text n)"
  let ?d1 = "string_replace_all ?s x d"
  let ?r = "Node x (kind n) (new_text_nodes (next_id d) ?s)"
  have "strip_count x d = Normal ?d1"
    using assms(2,3) by (rule strip_count_element)
  moreover have "wf_dom ?d1"
    using assms(1) by (rule wf_dom_string_replace_all)
  moreover have "deref ?d1 x = Some ?r"
    using assms(1,2) by (rule deref_string_replace_all_self)
  moreover have "rewritten n ?r"
    using assms(2) by (auto simp: rewritten_def dest: deref_SomeD)
  moreover have "set (ids [?r]) \<subseteq> {x, next_id d}"
    by (auto simp: new_text_nodes_def)
  moreover have "deref ?d1 k = Some m" if "deref d k = Some m" "x \<notin> set (ids [m])" for k m
    using assms(1) that by (rule deref_string_replace_all_other)
  ultimately show ?thesis
    by (intro exI [of _ ?d1] exI [of _ ?r]) simp
qed

section \<open>The loop\<close>

text \<open>
  Run on distinct references to elements, parents first, the loop completes
  normally; every listed element ends rewritten from the state it had at the
  start, and every node that contains none of them is unchanged.
\<close>

lemma loop_step:
  assumes "wf_dom d" and "distinct (x # xs)" and "parents_first d (x # xs)"
    and "\<forall>y\<in>set (x # xs). \<exists>n. deref d y = Some n \<and> is_element n"
  shows "\<exists>d1 n r. deref d x = Some n \<and> strip_count x d = Normal d1 \<and> wf_dom d1 \<and>
           deref d1 x = Some r \<and> rewritten n r \<and> set (ids [r]) \<inter> set xs = {} \<and>
           parents_first d1 xs \<and>
           (\<forall>y\<in>set xs. \<exists>m. deref d y = Some m \<and> deref d1 y = Some m \<and> is_element m) \<and>
           (\<forall>k m. deref d k = Some m \<longrightarrow> x \<notin> set (ids [m]) \<longrightarrow> deref d1 k = Some m)"
proof -
  from assms(4) obtain n where n: "deref d x = Some n" "is_element n"
    by auto
  from assms(1) n obtain d1 r where step: "strip_count x d = Normal d1" "wf_dom d1"
    and r: "deref d1 x = Some r" "rewritten n r" "set (ids [r]) \<subseteq> {x, next_id d}"
    and keep: "\<And>k m. deref d k = Some m \<Longrightarrow> x \<notin> set (ids [m]) \<Longrightarrow> deref d1 k = Some m"
    using strip_count_step by blast
  have rest: "\<exists>m. deref d y = Some m \<and> deref d1 y = Some m \<and> is_element m" if "y \<in> set xs" for y
  proof -
    from that assms(4) obtain m where m: "deref d y = Some m" "is_element m"
      by auto
    from that assms(3) m(1) have "x \<notin> set (ids [m])"
      by auto
    with m show ?thesis
      by (auto intro: keep)
  qed
  have "parents_first d1 xs = parents_first d xs"
    by (rule parents_first_cong) (use rest in force)
  with assms(3) have "parents_first d1 xs"
    by simp
  moreover have "next_id d \<notin> set xs"
    using rest deref_allocated [OF assms(1)] by (metis less_irrefl)
  with r(3) assms(2) have "set (ids [r]) \<inter> set xs = {}"
    by auto
  ultimately show ?thesis
    using n(1) step r(1,2) rest keep by blast
qed

lemma for_each_strip_count:
  assumes "wf_dom d" and "distinct xs" and "parents_first d xs"
    and "\<forall>x\<in>set xs. \<exists>n. deref d x = Some n \<and> is_element n"
  shows "\<exists>d'. for_each xs strip_count d = Normal d' \<and> wf_dom d' \<and>
           (\<forall>x\<in>set xs. \<forall>n. deref d x = Some n \<longrightarrow> (\<exists>r. deref d' x = Some r \<and> rewritten n r)) \<and>
           (\<forall>k n. deref d k = Some n \<longrightarrow> set (ids [n]) \<inter> set xs = {} \<longrightarrow> deref d' k = Some n)"
  using assms
proof (induction xs arbitrary: d)
  case Nil
  then show ?case by simp
next
  case (Cons x xs)
  from loop_step [OF Cons.prems] obtain d1 n r where n: "deref d x = Some n"
    and step: "strip_count x d = Normal d1" and wf1: "wf_dom d1"
    and r: "deref d1 x = Some r" "rewritten n r" "set (ids [r]) \<inter> set xs = {}"
    and pf: "parents_first d1 xs"
    and rest: "\<And>y. y \<in> set xs \<Longrightarrow> \<exists>m. deref d y = Some m \<and> deref d1 y = Some m \<and> is_element m"
    and keep: "\<And>k m. deref d k = Some m \<Longrightarrow> x \<notin> set (ids [m]) \<Longrightarrow> deref d1 k = Some m"
    by blast
  from Cons.prems(2) rest have "distinct xs" "\<forall>y\<in>set xs. \<exists>m. deref d1 y = Some m \<and> is_element m"
    by auto
  from Cons.IH [OF wf1 this(1) pf this(2)] obtain d' where d':
    "for_each xs strip_count d1 = Normal d'" "wf_dom d'"
    "\<And>y m. y \<in> set xs \<Longrightarrow> deref d1 y = Some m \<Longrightarrow> \<exists>r. deref d' y = Some r \<and> rewritten m r"
    "\<And>k m. deref d1 k = Some m \<Longrightarrow> set (ids [m]) \<inter> set xs = {} \<Longrightarrow> deref d' k = Some m"
    by blast
  from r(1,3) have "deref d' x = Some r"
    by (rule d'(4))
  with r(2) n have head: "\<exists>r. deref d' x = Some r \<and> rewritten m r" if "deref d x = Some m" for m
    using that by auto
  have tail: "\<exists>r. deref d' y = Some r \<and> rewritten m r"
    if "y \<in> set xs" "deref d y = Some m" for y m
    using d'(3) [OF that(1)] rest [OF that(1)] that(2) by auto
  have frame: "deref d' k = Some m"
    if "deref d k = Some m" "set (ids [m]) \<inter> set (x # xs) = {}" for k m
    using that by (intro d'(4) keep) auto
  from step d'(1) have "for_each (x # xs) strip_count d = Normal d'"
    by simp
  with d'(2) head tail frame show ?case
    by auto
qed

section \<open>The listener\<close>

lemma on_dom_content_loaded_conv:
  "on_dom_content_loaded p =
     for_each (document_query_selector_all category_count_selector p) strip_count
       (console_log (js_lit ''X'') p)"
  by (simp add: on_dom_content_loaded_def Let_def)

lemma on_dom_content_loaded_run:
  assumes "wf_dom p"
  shows "\<exists>p'. on_dom_content_loaded p = Normal p' \<and> wf_dom p' \<and>
     (\<forall>x\<in>set (document_query_selector_all category_count_selector p).
        \<exists>n r. deref p x = Some n \<and> is_element n \<and> deref p' x = Some r \<and> rewritten n r) \<and>
     (\<forall>k n. deref p k = Some n \<longrightarrow>
        set (ids [n]) \<inter> set (document_query_selector_all category_count_selector p) = {} \<longrightarrow>
        deref p' k = Some n)"
proof -
  let ?xs = "document_query_selector_all category_count_selector p"
  let ?p1 = "console_log (js_lit ''X'') p"
  have el: "\<forall>x\<in>set ?xs. \<exists>n. deref ?p1 x = Some n \<and> is_element n"
    using query_elements [OF assms] by simp
  have "wf_dom ?p1" "distinct ?xs" "parents_first ?p1 ?xs"
    using assms distinct_document_query [OF assms] parents_first_query [of ?p1]
    by simp_all
  from for_each_strip_count [OF this el] obtain p' where p':
    "on_dom_content_loaded p = Normal p'" "wf_dom p'"
    "\<And>x n. x \<in> set ?xs \<Longrightarrow> deref p x = Some n \<Longrightarrow> \<exists>r. deref p' x = Some r \<and> rewritten n r"
    "\<And>k n. deref p k = Some n \<Longrightarrow> set (ids [n]) \<inter> set ?xs = {} \<Longrightarrow> deref p' k = Some n"
    by (auto simp: on_dom_content_loaded_conv)
  have "\<exists>n r. deref p x = Some n \<and> is_element n \<and> deref p' x = Some r \<and> rewritten n r"
    if "x \<in> set ?xs" for x
    using el that p'(3) [OF that] by fastforce
  with p'(1,2,4) show ?thesis
    by blast
qed

lemma console_strip_count:
  "strip_count x p = Normal p' \<Longrightarrow> console p' = console p"
  by (auto dest: strip_count_NormalD)

lemma console_on_dom_content_loaded:
  assumes "on_dom_content_loaded p = Normal p'"
  shows "console p' = console p @ [js_lit ''X'']"
proof -
  from assms have "for_each (document_query_selector_all category_count_selector p) strip_count
      (console_log (js_lit ''X'') p) = Normal p'"
    by (simp add: on_dom_content_loaded_conv)
  then show ?thesis
    by (rule for_each_invariant) (simp_all add: console_strip_count)
qed

lemma more_strip_count:
  "strip_count x p = Normal p' \<Longrightarrow> dom.more p' = dom.more p"
  by (auto dest: strip_count_NormalD)

text \<open>The listener changes nothing of the state beyond the nodes and the console.\<close>

lemma more_on_dom_content_loaded:
  assumes "on_dom_content_loaded p = Normal p'"
  shows "page.more p' = page.more p"
proof -
  let ?p1 = "console_log (js_lit ''X'') p"
  from assms have "for_each (document_query_selector_all category_count_selector p) strip_count
      ?p1 = Normal p'"
    by (simp add: on_dom_content_loaded_conv)
  then have "page.more p' = page.more ?p1"
  proof (rule for_each_invariant)
    fix x :: node_id and t t' :: "'a page_scheme"
    assume "page.more t = page.more ?p1" "strip_count x t = Normal t'"
    then show "page.more t' = page.more ?p1"
      using more_strip_count [of x t t'] by (cases t, cases t') simp
  qed simp
  then show ?thesis
    by (simp add: console_log_def)
qed

lemma query_disjoint_subtree:
  assumes "wf_dom d" and "deref d k = Some n"
    and "\<forall>m\<in>set (inclusive_descendants n). \<not> matches sel m"
  shows "set (ids [n]) \<inter> set (document_query_selector_all sel d) = {}"
proof (rule ccontr)
  assume "\<not> ?thesis"
  then obtain m q where m: "m \<in> set (inclusive_descendants n)"
    and q: "q \<in> set (query_selector_all sel (document d))" and eq: "node_id m = node_id q"
    by (auto simp: document_query_selector_all_def ids_def)
  from assms(2) have "n \<in> set (nodes_of (roots d))"
    by (auto dest: deref_SomeD simp: all_nodes_def)
  with m have "m \<in> set (nodes_of (roots d))"
    using nodes_of_trans by blast
  moreover from q have "q \<in> set (nodes_of (roots d))" "matches sel q"
    using query_nodes_in_store [of q sel d] by (simp_all add: all_nodes_def query_selector_all_def)
  ultimately have "matches sel m"
    using eq wf_dom_distinct [OF assms(1)] by (auto dest: same_id_same_node)
  with m assms(3) show False
    by blast
qed

section \<open>Example pages\<close>

text \<open>
  A listing page with one category and its count badge, the page the listener
  leaves, and the page a second run of the listener leaves.
\<close>

definition example_page :: page where
  "example_page =
     \<lparr>document =
        Node 0 Document
          [Node 1 Doctype [],
           Node 2 (Element (js_lit ''html'') [])
             [Node 3 (Element (js_lit ''div'') [js_lit ''category''])
                [Node 4 (Text (js_lit ''News '')) [],
                 Node 5 (Element (js_lit ''span'') [js_lit ''quarto-category-count''])
                   [Node 6 (Text (js_lit ''(5)'')) []]]]],
      detached = [], next_id = 7, console = []\<rparr>"

definition example_result :: page where
  "example_result =
     \<lparr>document =
        Node 0 Document
          [Node 1 Doctype [],
           Node 2 (Element (js_lit ''html'') [])
             [Node 3 (Element (js_lit ''div'') [js_lit ''category''])
                [Node 4 (Text (js_lit ''News '')) [],
                 Node 5 (Element (js_lit ''span'') [js_lit ''quarto-category-count''])
                   [Node 7 (Text (js_lit ''5'')) []]]]],
      detached = [Node 6 (Text (js_lit ''(5)'')) []], next_id = 8,
      console = [js_lit ''X'']\<rparr>"

definition example_rerun :: page where
  "example_rerun =
     \<lparr>document =
        Node 0 Document
          [Node 1 Doctype [],
           Node 2 (Element (js_lit ''html'') [])
             [Node 3 (Element (js_lit ''div'') [js_lit ''category''])
                [Node 4 (Text (js_lit ''News '')) [],
                 Node 5 (Element (js_lit ''span'') [js_lit ''quarto-category-count'']) []]]],
      detached = [Node 6 (Text (js_lit ''(5)'')) [], Node 7 (Text (js_lit ''5'')) []],
      next_id = 8, console = [js_lit ''X'', js_lit ''X'']\<rparr>"

definition plain_page :: page where
  "plain_page =
     \<lparr>document =
        Node 0 Document
          [Node 1 (Element (js_lit ''html'') [])
             [Node 2 (Element (js_lit ''p'') [js_lit ''lead''])
                [Node 3 (Text (js_lit ''(5)'')) []]]],
      detached = [], next_id = 4, console = []\<rparr>"

lemmas page_eval = example_page_def example_result_def example_rerun_def plain_page_def
  on_dom_content_loaded_def console_log_def category_count_selector_def strip_count_def
  dom_defs js_defs descendants_def wf_dom_def Let_def

lemma example_wf: "wf_dom example_page"
  by (simp add: page_eval)

lemma example_run: "on_dom_content_loaded example_page = Normal example_result"
  by (simp add: page_eval)

lemma example_run_again: "on_dom_content_loaded example_result = Normal example_rerun"
  by (simp add: page_eval)

lemma example_query:
  "document_query_selector_all category_count_selector example_page = [5]"
  "document_query_selector_all category_count_selector example_result = [5]"
  by (simp_all add: page_eval)

lemma example_text: "get_text_content 5 example_page = Some (js_lit ''(5)'')"
  by (simp add: page_eval)

section \<open>What the listener does\<close>

text \<open>
  C1. On a well-formed page, every element that \<^verbatim>\<open>querySelectorAll\<close>
  selected ends with the text it had when the listener started, without its
  first and last code unit (empty if it had at most one): also an element
  nested in another selected element, whose text is rewritten after it has
  left the document.
\<close>

theorem badges_stripped:
  assumes "wf_dom p" and "on_dom_content_loaded p = Normal p'"
    and "x \<in> set (document_query_selector_all category_count_selector p)"
    and "get_text_content x p = Some t"
  shows "get_text_content x p' = Some (new_text t)"
  using on_dom_content_loaded_run [OF assms(1)] assms(2-4)
  by (auto dest!: bspec [of _ _ x] simp: rewritten_text_content text_content_element)

theorem badges_stripped_witness:
  "wf_dom example_page \<and> on_dom_content_loaded example_page = Normal example_result \<and>
   5 \<in> set (document_query_selector_all category_count_selector example_page) \<and>
   get_text_content 5 example_page = Some (js_lit ''(5)'') \<and>
   get_text_content 5 example_result = Some (new_text (js_lit ''(5)''))"
proof -
  have q: "5 \<in> set (document_query_selector_all category_count_selector example_page)"
    by (simp add: example_query)
  from badges_stripped [OF example_wf example_run q example_text]
  show ?thesis
    using example_wf example_run q example_text by (intro conjI)
qed

text \<open>
  C2. On a well-formed page the listener completes normally: no statement of
  it throws, because every selected node is an element and the
  \<^verbatim>\<open>textContent\<close> of an element is a string.
\<close>

theorem listener_never_throws:
  assumes "wf_dom p"
  shows "\<exists>p'. on_dom_content_loaded p = Normal p'"
  using on_dom_content_loaded_run [OF assms] by blast

theorem listener_never_throws_witness:
  "wf_dom example_page \<and> (\<exists>p'. on_dom_content_loaded example_page = Normal p')"
  using listener_never_throws [OF example_wf] example_wf by (intro conjI)

text \<open>
  C7. The listener keeps the page well-formed: node identities stay unique
  and below the next identity to allocate.
\<close>

theorem listener_keeps_wf:
  assumes "wf_dom p" and "on_dom_content_loaded p = Normal p'"
  shows "wf_dom p'"
  using on_dom_content_loaded_run [OF assms(1)] assms(2) by auto

theorem listener_keeps_wf_witness:
  "wf_dom example_page \<and> on_dom_content_loaded example_page = Normal example_result \<and>
   wf_dom example_result"
  using listener_keeps_wf [OF example_wf example_run] example_wf example_run by (intro conjI)

text \<open>
  C8. A node whose subtree holds no element of the selected class is left as
  it is, with all its descendants.
\<close>

theorem other_nodes_unchanged:
  assumes "wf_dom p" and "on_dom_content_loaded p = Normal p'"
    and "deref p k = Some n"
    and "\<forall>m\<in>set (inclusive_descendants n). \<not> matches category_count_selector m"
  shows "deref p' k = Some n"
  using on_dom_content_loaded_run [OF assms(1)] assms(2,3)
    query_disjoint_subtree [OF assms(1,3,4)]
  by auto

theorem other_nodes_unchanged_witness:
  "wf_dom example_page \<and> on_dom_content_loaded example_page = Normal example_result \<and>
   deref example_page 4 = Some (Node 4 (Text (js_lit ''News '')) []) \<and>
   deref example_result 4 = Some (Node 4 (Text (js_lit ''News '')) [])"
proof -
  have d: "deref example_page 4 = Some (Node 4 (Text (js_lit ''News '')) [])"
    by (simp add: page_eval)
  have m: "\<forall>m\<in>set (inclusive_descendants (Node 4 (Text (js_lit ''News '')) [])).
      \<not> matches category_count_selector m"
    by (simp add: category_count_selector_def)
  from other_nodes_unchanged [OF example_wf example_run d m]
  show ?thesis
    using example_wf example_run d by (intro conjI)
qed

text \<open>
  C10. When no element has the class, the listener throws nothing and changes
  no node: all it does is write its line to the console.
\<close>

theorem no_badges_no_mutation:
  assumes "document_query_selector_all category_count_selector p = []"
  shows "on_dom_content_loaded p = Normal (console_log (js_lit ''X'') p)"
  using assms by (simp add: on_dom_content_loaded_def Let_def)

theorem no_badges_no_mutation_witness:
  "document_query_selector_all category_count_selector plain_page = [] \<and>
   on_dom_content_loaded plain_page = Normal (console_log (js_lit ''X'') plain_page)"
proof -
  have q: "document_query_selector_all category_count_selector plain_page = []"
    by (simp add: page_eval)
  from no_badges_no_mutation [OF q] q show ?thesis
    by (intro conjI)
qed

text \<open>
  C9. A run of the listener that completes appends exactly one line,
  \<^verbatim>\<open>X\<close>, to the console.
\<close>

theorem listener_logs_once:
  assumes "on_dom_content_loaded p = Normal p'"
  shows "console p' = console p @ [js_lit ''X'']"
  using assms by (rule console_on_dom_content_loaded)

theorem listener_logs_once_witness:
  "on_dom_content_loaded example_page = Normal example_result \<and>
   console example_result = console example_page @ [js_lit ''X'']"
  using listener_logs_once [OF example_run] example_run by (intro conjI)

text \<open>
  C13. The listener is not safe to run twice: a badge that is selected in both
  runs loses two code units at each end.
\<close>

theorem second_run_strips_again:
  assumes "wf_dom p" and "on_dom_content_loaded p = Normal p'"
    and "on_dom_content_loaded p' = Normal p''"
    and "x \<in> set (document_query_selector_all category_count_selector p)"
    and "x \<in> set (document_query_selector_all category_count_selector p')"
    and "get_text_content x p = Some t"
  shows "get_text_content x p'' = Some (new_text (new_text t))"
proof -
  from on_dom_content_loaded_run [OF assms(1)] assms(2,4,6)
  have 1: "wf_dom p'" "get_text_content x p' = Some (new_text t)"
    by (auto dest!: bspec [of _ _ x] simp: rewritten_text_content text_content_element)
  from on_dom_content_loaded_run [OF 1(1)] assms(3,5) 1(2) show ?thesis
    by (auto dest!: bspec [of _ _ x] simp: rewritten_text_content text_content_element)
qed

theorem second_run_strips_again_witness:
  "wf_dom example_page \<and> on_dom_content_loaded example_page = Normal example_result \<and>
   on_dom_content_loaded example_result = Normal example_rerun \<and>
   5 \<in> set (document_query_selector_all category_count_selector example_page) \<and>
   5 \<in> set (document_query_selector_all category_count_selector example_result) \<and>
   get_text_content 5 example_page = Some (js_lit ''(5)'') \<and>
   get_text_content 5 example_rerun = Some (new_text (new_text (js_lit ''(5)'')))"
proof -
  have q: "5 \<in> set (document_query_selector_all category_count_selector example_page)"
    "5 \<in> set (document_query_selector_all category_count_selector example_result)"
    by (simp_all add: example_query)
  from second_run_strips_again [OF example_wf example_run example_run_again q example_text]
  show ?thesis
    using example_wf example_run example_run_again q example_text by (intro conjI)
qed

end
