(* ===== verification/Document_Spec.thy ===== *)
theory Document_Spec
  imports DOM_Tree Badge_Text
begin

text \<open>
  What the listener promises about the document, stated without node
  identities and without a store: a document is a tree of kinds, and the
  listener replaces the children of every outermost element of the selected
  class by one text leaf that holds the rewritten text of the element (no leaf
  when it is empty). \<open>erase\<close> forgets the identities of a node tree;
  \<open>Refinement\<close> shows that the listener of \<open>Handler\<close> computes
  \<open>rewrite_document\<close> on the erased document. The lemmas here are about
  the rewrite alone: the texts of the badges after it, when a second rewrite
  changes nothing, and how much shorter the text of the page gets.
\<close>

section \<open>Documents without identities\<close>

datatype doc_tree = Tree kind "doc_tree list"

fun erase :: "node \<Rightarrow> doc_tree" where
  "erase (Node i k cs) = Tree k (map erase cs)"

fun all_text :: "doc_tree \<Rightarrow> jsstring" where
  "all_text (Tree k cs) = (case k of Text s \<Rightarrow> s | _ \<Rightarrow> []) @ concat (map all_text cs)"

fun kind_matches :: "selector \<Rightarrow> kind \<Rightarrow> bool" where
  "kind_matches (Class_selector c) k = (case k of Element _ cs \<Rightarrow> c \<in> set cs | _ \<Rightarrow> False)"

definition text_leaf :: "jsstring \<Rightarrow> doc_tree list" where
  "text_leaf s = (if s = [] then [] else [Tree (Text s) []])"

fun rewrite_badges :: "selector \<Rightarrow> doc_tree \<Rightarrow> doc_tree" where
  "rewrite_badges sel (Tree k cs) =
     (if kind_matches sel k then Tree k (text_leaf (new_text (concat (map all_text cs))))
      else Tree k (map (rewrite_badges sel) cs))"

fun rewrite_document :: "selector \<Rightarrow> doc_tree \<Rightarrow> doc_tree" where
  "rewrite_document sel (Tree k cs) = Tree k (map (rewrite_badges sel) cs)"

lemma erase_conv: "erase n = Tree (kind n) (map erase (child_nodes n))"
  by (cases n) simp

lemma text_of_nodes:
  "concat (map text_data (nodes_of cs)) = concat (map (\<lambda>c. all_text (erase c)) cs)"
  by (induction cs rule: forest_induct) (simp_all add: text_data_def comp_def)

lemma descendant_text_erase:
  "descendant_text n = concat (map all_text (map erase (child_nodes n)))"
  by (simp add: descendant_text_def descendants_def text_of_nodes comp_def)

lemma matches_kind: "matches sel n = kind_matches sel (kind n)"
  by (cases sel) simp

section \<open>Rewriting twice\<close>

text \<open>
  \<open>outer_badge_texts sel t\<close> lists the texts of the outermost subtrees of
  \<open>t\<close> that match: the texts the rewrite replaces.
\<close>

fun outer_badge_texts :: "selector \<Rightarrow> doc_tree \<Rightarrow> jsstring list" where
  "outer_badge_texts sel (Tree k cs) =
     (if kind_matches sel k then [concat (map all_text cs)]
      else concat (map (outer_badge_texts sel) cs))"

lemma all_text_text_leaf [simp]: "concat (map all_text (text_leaf s)) = s"
  by (simp add: text_leaf_def)

lemma text_leaf_eq_iff [simp]: "text_leaf s = text_leaf t \<longleftrightarrow> s = t"
  by (auto simp: text_leaf_def)

lemma rewrite_badges_no_match:
  "outer_badge_texts sel t = [] \<Longrightarrow> rewrite_badges sel t = t"
  by (induction t) (auto simp: map_idI split: if_splits)

lemma outer_badge_texts_rewrite:
  "outer_badge_texts sel (rewrite_badges sel t) = map new_text (outer_badge_texts sel t)"
proof (induction t)
  case (Tree k cs)
  then have "map (\<lambda>c. outer_badge_texts sel (rewrite_badges sel c)) cs =
      map (\<lambda>c. map new_text (outer_badge_texts sel c)) cs"
    by simp
  then show ?case
    by (simp add: comp_def map_concat del: map_eq_conv)
qed

lemma rewrite_badges_twice_iff:
  "rewrite_badges sel (rewrite_badges sel t) = rewrite_badges sel t \<longleftrightarrow>
     (\<forall>s\<in>set (outer_badge_texts sel t). length s \<le> 2)"
proof (induction t)
  case (Tree k cs)
  show ?case
  proof (cases "kind_matches sel k")
    case True
    then show ?thesis
      by (simp add: new_text_eq_self_iff new_text_eq_Nil_iff)
  next
    case False
    have "map (\<lambda>c. rewrite_badges sel (rewrite_badges sel c)) cs = map (rewrite_badges sel) cs \<longleftrightarrow>
        (\<forall>c\<in>set cs. rewrite_badges sel (rewrite_badges sel c) = rewrite_badges sel c)"
      by (simp add: map_eq_conv)
    with False Tree show ?thesis
      by (auto simp: comp_def)
  qed
qed

text \<open>
  \<open>badge_texts sel t\<close> lists the texts of the outermost matching subtrees
  below the root of \<open>t\<close>: the root itself is never selected.
\<close>

fun badge_texts :: "selector \<Rightarrow> doc_tree \<Rightarrow> jsstring list" where
  "badge_texts sel (Tree k cs) = concat (map (outer_badge_texts sel) cs)"

lemma rewrite_document_no_match: "badge_texts sel t = [] \<Longrightarrow> rewrite_document sel t = t"
  by (cases t) (simp add: map_idI rewrite_badges_no_match)

lemma badge_texts_rewrite:
  "badge_texts sel (rewrite_document sel t) = map new_text (badge_texts sel t)"
  by (cases t) (simp add: comp_def map_concat outer_badge_texts_rewrite)

lemma rewrite_document_twice_iff:
  "rewrite_document sel (rewrite_document sel t) = rewrite_document sel t \<longleftrightarrow>
     (\<forall>s\<in>set (badge_texts sel t). length s \<le> 2)"
  by (cases t) (simp add: map_eq_conv rewrite_badges_twice_iff comp_def)

section \<open>The text of the page\<close>

text \<open>
  \<open>below_text t\<close> is the text below the root of \<open>t\<close>, and
  \<open>removed_units ts\<close> the number of code units the rewrite takes from
  badges with the texts \<open>ts\<close>: two from each, as far as it has them.
\<close>

fun below_text :: "doc_tree \<Rightarrow> jsstring" where
  "below_text (Tree k cs) = concat (map all_text cs)"

definition removed_units :: "jsstring list \<Rightarrow> nat" where
  "removed_units ts = sum_list (map (\<lambda>s. min 2 (length s)) ts)"

lemma removed_units_simps [simp]:
  "removed_units [] = 0"
  "removed_units (s # ts) = min 2 (length s) + removed_units ts"
  "removed_units (ts @ us) = removed_units ts + removed_units us"
  by (simp_all add: removed_units_def)

lemma length_new_text_removed: "length (new_text s) + min 2 (length s) = length s"
  by simp

lemma length_texts_rewrite:
  assumes "\<And>c. c \<in> set cs \<Longrightarrow>
    length (all_text (rewrite_badges sel c)) + removed_units (outer_badge_texts sel c) =
      length (all_text c)"
  shows "length (concat (map (\<lambda>c. all_text (rewrite_badges sel c)) cs)) +
      removed_units (concat (map (outer_badge_texts sel) cs)) =
    length (concat (map all_text cs))"
  using assms
proof (induction cs)
  case (Cons c cs)
  have "length (all_text (rewrite_badges sel c)) + removed_units (outer_badge_texts sel c) =
      length (all_text c)"
    by (rule Cons.prems) simp
  moreover have "length (concat (map (\<lambda>c. all_text (rewrite_badges sel c)) cs)) +
      removed_units (concat (map (outer_badge_texts sel) cs)) = length (concat (map all_text cs))"
    by (rule Cons.IH) (simp add: Cons.prems)
  ultimately show ?case
    by simp
qed simp

lemma length_all_text_rewrite:
  "length (all_text (rewrite_badges sel t)) + removed_units (outer_badge_texts sel t) =
     length (all_text t)"
proof (induction t)
  case (Tree k cs)
  show ?case
  proof (cases "kind_matches sel k")
    case True
    then have "(case k of Text s \<Rightarrow> s | _ \<Rightarrow> []) = []"
      by (cases sel; cases k) simp_all
    with True show ?thesis
      by simp
  next
    case False
    with length_texts_rewrite [of cs sel] Tree show ?thesis
      by (simp add: comp_def)
  qed
qed

lemma length_below_text_rewrite:
  "length (below_text (rewrite_document sel t)) + removed_units (badge_texts sel t) =
     length (below_text t)"
  by (cases t) (simp add: comp_def length_texts_rewrite length_all_text_rewrite)

end
