(* ===== verification/Refinement.thy ===== *)
theory Refinement
  imports Handler Document_Spec
begin

text \<open>
  The listener refines the rewrite of \<open>Document_Spec\<close>. Two facts about a
  run carry the proof: every selected element ends \<open>rewritten\<close>
  (\<open>Handler\<close>), and every other node keeps its kind and the identities of
  its children (\<open>same_shape\<close>, an invariant of the loop). The document
  after the run is then determined node by node, by induction on the document
  before it. The induction is done once, for any observation of the new
  document, and used twice: for the erased document and for the list of
  selected elements.
\<close>

section \<open>The shape the loop keeps\<close>

lemma erase_new_text_nodes [simp]: "map erase (new_text_nodes fresh s) = text_leaf s"
  by (simp add: new_text_nodes_def text_leaf_def)

lemma erase_rewritten:
  assumes "rewritten n r" and "matches sel n"
  shows "erase r = rewrite_badges sel (erase n)"
proof -
  from assms(1) obtain fresh where
    "r = Node (node_id n) (kind n) (new_text_nodes fresh (new_text (descendant_text n)))"
    by (cases r) (auto simp: rewritten_def)
  with assms(2) show ?thesis
    by (cases n) (simp add: matches_kind descendant_text_erase)
qed

definition same_shape :: "node_id set \<Rightarrow> 'a dom_scheme \<Rightarrow> 'a dom_scheme \<Rightarrow> bool" where
  "same_shape X d t \<longleftrightarrow>
     wf_dom t \<and> node_id (document t) = node_id (document d) \<and>
     (\<forall>j n. deref d j = Some n \<longrightarrow>
        (\<exists>n'. deref t j = Some n' \<and> kind n' = kind n \<and>
           (j \<notin> X \<longrightarrow> map node_id (child_nodes n') = map node_id (child_nodes n))))"

lemma same_shape_refl: "wf_dom d \<Longrightarrow> same_shape X d d"
  by (simp add: same_shape_def)

lemma same_shape_strip_count:
  assumes "same_shape X d t" and "x \<in> X" and "deref d x = Some n" and "is_element n"
    and "strip_count x t = Normal t'"
  shows "same_shape X d t'"
proof -
  from assms(1) have wf: "wf_dom t"
    by (simp add: same_shape_def)
  from assms(1,3) obtain m where m: "deref t x = Some m" "kind m = kind n"
    by (auto simp: same_shape_def)
  with assms(4) have "is_element m"
    using is_element_kind [of m n] by simp
  with m(1) assms(5) obtain s where t': "t' = string_replace_all s x t"
    by (auto simp: strip_count_element)
  let ?u = "update_node x (set_children (new_text_nodes (next_id t) s))"
  have "\<exists>n'. deref t' j = Some n' \<and> kind n' = kind k \<and>
      (j \<notin> X \<longrightarrow> map node_id (child_nodes n') = map node_id (child_nodes k))"
    if "deref d j = Some k" for j k
  proof -
    from assms(1) that obtain k' where k': "deref t j = Some k'" "kind k' = kind k"
      "j \<notin> X \<longrightarrow> map node_id (child_nodes k') = map node_id (child_nodes k)"
      by (auto simp: same_shape_def)
    from wf k'(1) have "deref t' j = Some (?u k')"
      unfolding t' by (rule deref_string_replace_all)
    moreover from k'(1) have "node_id k' = j"
      by (auto dest: deref_SomeD)
    then have "map node_id (child_nodes (?u k')) = map node_id (child_nodes k')" if "j \<notin> X"
      using that assms(2) by (intro child_ids_update_node) auto
    ultimately show ?thesis
      using k'(2,3) by auto
  qed
  moreover have "node_id (document t') = node_id (document d)"
    using assms(1) by (simp add: t' string_replace_all_def Let_def same_shape_def)
  moreover have "wf_dom t'"
    unfolding t' using wf by (rule wf_dom_string_replace_all)
  ultimately show ?thesis
    by (simp add: same_shape_def)
qed

lemma for_each_strip_count_shape:
  assumes "wf_dom d" and "\<forall>x\<in>set xs. \<exists>n. deref d x = Some n \<and> is_element n"
    and "for_each xs strip_count d = Normal d'"
  shows "same_shape (set xs) d d'"
  using assms(3)
proof (rule for_each_invariant)
  show "same_shape (set xs) d d"
    using assms(1) by (rule same_shape_refl)
  show "same_shape (set xs) d t'"
    if "x \<in> set xs" "same_shape (set xs) d t" "strip_count x t = Normal t'" for x t t'
    using that assms(2) by (auto intro: same_shape_strip_count)
qed

lemma descendant_text_below: "descendant_text n = below_text (erase n)"
  by (cases n) (simp add: descendant_text_erase)

section \<open>From references to the document tree\<close>

text \<open>
  The lemmas of this section are about any observation \<open>obs\<close> of a node
  tree of the new store that is to equal a function \<open>tgt\<close> of the tree the
  old store had at the same reference. They reduce the equation to two facts:
  it holds for a rewritten element (\<open>hit\<close>), and it holds for a node that
  is not selected when it holds for its children (\<open>step\<close>). The
  observations used are \<open>erase\<close> (with the rewrite of \<open>Document_Spec\<close> as
  the function of the old tree) and the list of selected references.
\<close>

lemma observe_children:
  assumes "wf_dom d'" and "deref d' j = Some n'"
    and "map node_id (child_nodes n') = map node_id cs"
    and "\<And>c. c \<in> set cs \<Longrightarrow> \<exists>c'. deref d' (node_id c) = Some c' \<and> obs c' = tgt c"
  shows "map obs (child_nodes n') = map tgt cs"
proof (rule nth_equalityI)
  from assms(3) show len: "length (map obs (child_nodes n')) = length (map tgt cs)"
    by (metis length_map)
  fix i
  assume "i < length (map obs (child_nodes n'))"
  with len have i: "i < length cs" "i < length (child_nodes n')"
    by simp_all
  let ?c' = "child_nodes n' ! i" and ?c = "cs ! i"
  from assms(3) i have "node_id ?c' = node_id ?c"
    by (metis nth_map)
  moreover from assms(2) i(2) have "?c' \<in> set (all_nodes d')"
    by (auto intro: child_in_all_nodes)
  ultimately have "deref d' (node_id ?c) = Some ?c'"
    using assms(1) by (metis deref_SomeI)
  with assms(4) [of ?c] i(1) have "obs ?c' = tgt ?c"
    by auto
  with i show "map obs (child_nodes n') ! i = map tgt cs ! i"
    by simp
qed

lemma observe_unselected:
  assumes "same_shape X d d'" and "deref d j = Some (Node j k cs)" and "j \<notin> X"
    and "\<And>c. c \<in> set cs \<Longrightarrow> \<exists>c'. deref d' (node_id c) = Some c' \<and> obs c' = tgt c"
  shows "\<exists>n'. deref d' j = Some n' \<and> node_id n' = j \<and> kind n' = k \<and>
    map obs (child_nodes n') = map tgt cs"
proof -
  from assms(1-3) obtain n' where n': "deref d' j = Some n'" "kind n' = k"
    "map node_id (child_nodes n') = map node_id cs"
    by (fastforce simp: same_shape_def)
  from assms(1) have "wf_dom d'"
    by (simp add: same_shape_def)
  then have "map obs (child_nodes n') = map tgt cs"
    using n'(1,3) assms(4) by (rule observe_children)
  moreover from n'(1) have "node_id n' = j"
    by (simp add: deref_SomeD)
  ultimately show ?thesis
    using n'(1,2) by simp
qed

lemma observe_subtree:
  assumes "wf_dom d" and "same_shape X d d'"
    and B: "\<And>x m. x \<in> X \<Longrightarrow> deref d x = Some m \<Longrightarrow> \<exists>r. deref d' x = Some r \<and> rewritten m r"
    and hit: "\<And>m r. matches sel m \<Longrightarrow> rewritten m r \<Longrightarrow> obs r = tgt m"
    and step: "\<And>j k cs n'. \<not> matches sel (Node j k cs) \<Longrightarrow> kind n' = k \<Longrightarrow>
      map obs (child_nodes n') = map tgt cs \<Longrightarrow> obs n' = tgt (Node j k cs)"
    and "n \<in> set (all_nodes d)"
    and "\<forall>m\<in>set (inclusive_descendants n). matches sel m \<longleftrightarrow> node_id m \<in> X"
  shows "\<exists>n'. deref d' (node_id n) = Some n' \<and> obs n' = tgt n"
  using assms(6,7)
proof (induction n)
  case (Node j k cs)
  let ?n = "Node j k cs"
  from assms(1) Node.prems(1) have d: "deref d j = Some ?n"
    by (auto dest: deref_SomeI)
  show ?case
  proof (cases "matches sel ?n")
    case True
    with Node.prems(2) have "j \<in> X"
      by auto
    from B [OF this d] obtain r where r: "deref d' j = Some r" "rewritten ?n r"
      by blast
    from hit [OF True r(2)] r(1) show ?thesis
      by simp
  next
    case False
    with Node.prems(2) have "j \<notin> X"
      by auto
    have ch: "\<exists>c'. deref d' (node_id c) = Some c' \<and> obs c' = tgt c" if "c \<in> set cs" for c
    proof (rule Node.IH [OF that])
      show "c \<in> set (all_nodes d)"
        using d that by (auto intro: child_in_all_nodes)
      have "set (inclusive_descendants c) \<subseteq> set (inclusive_descendants ?n)"
        using that by (auto simp: set_nodes_of)
      with Node.prems(2) show "\<forall>m\<in>set (inclusive_descendants c). matches sel m \<longleftrightarrow> node_id m \<in> X"
        by blast
    qed
    from assms(2) d \<open>j \<notin> X\<close> ch obtain n' where n': "deref d' j = Some n'"
      "node_id n' = j" "kind n' = k" "map obs (child_nodes n') = map tgt cs"
      using observe_unselected [where obs = obs and tgt = tgt] by blast
    from step [OF False n'(3,4)] n'(1) show ?thesis
      by simp
  qed
qed

lemma observe_document:
  assumes "wf_dom d" and shape: "same_shape (set (document_query_selector_all sel d)) d d'"
    and B: "\<And>x m. x \<in> set (document_query_selector_all sel d) \<Longrightarrow> deref d x = Some m \<Longrightarrow>
      \<exists>r. deref d' x = Some r \<and> rewritten m r"
    and hit: "\<And>m r. matches sel m \<Longrightarrow> rewritten m r \<Longrightarrow> obs r = tgt m"
    and step: "\<And>j k cs n'. \<not> matches sel (Node j k cs) \<Longrightarrow> kind n' = k \<Longrightarrow>
      map obs (child_nodes n') = map tgt cs \<Longrightarrow> obs n' = tgt (Node j k cs)"
  shows "kind (document d') = kind (document d)"
    and "map obs (child_nodes (document d')) = map tgt (child_nodes (document d))"
proof -
  let ?xs = "document_query_selector_all sel d"
  from shape have wf': "wf_dom d'"
    by (simp add: same_shape_def)
  obtain j k cs where doc: "document d = Node j k cs"
    by (cases "document d")
  have root: "deref d j = Some (Node j k cs)"
    using assms(1) doc deref_SomeI [of d "document d"]
    by (simp add: all_nodes_def roots_def)
  have out: "j \<notin> set ?xs"
    using root_not_queried [OF assms(1), of sel] doc by simp
  have ch: "\<exists>c'. deref d' (node_id c) = Some c' \<and> obs c' = tgt c" if "c \<in> set cs" for c
  proof (rule observe_subtree [where obs = obs and tgt = tgt and sel = sel, OF assms(1) shape B hit step])
    show "c \<in> set (all_nodes d)"
      using root that by (auto intro: child_in_all_nodes)
    have "set (inclusive_descendants c) \<subseteq> set (descendants (document d))"
      using that doc by (auto simp: set_nodes_of)
    then show "\<forall>m\<in>set (inclusive_descendants c). matches sel m \<longleftrightarrow> node_id m \<in> set ?xs"
      using query_membership [OF assms(1)] by blast
  qed
  from shape root out ch obtain n' where n': "deref d' j = Some n'" "kind n' = k"
    "map obs (child_nodes n') = map tgt cs"
    using observe_unselected [where obs = obs and tgt = tgt] by blast
  have "deref d' (node_id (document d')) = Some (document d')"
    using wf' by (intro deref_SomeI) (simp_all add: all_nodes_def roots_def)
  with shape doc n'(1) have "n' = document d'"
    by (simp add: same_shape_def)
  with n'(2,3) doc show "kind (document d') = kind (document d)"
    and "map obs (child_nodes (document d')) = map tgt (child_nodes (document d))"
    by simp_all
qed

section \<open>The document after a run\<close>

lemma erase_unselected:
  assumes "\<not> matches sel (Node j k cs)" and "kind n' = k"
    and "map erase (child_nodes n') = map (\<lambda>n. rewrite_badges sel (erase n)) cs"
  shows "erase n' = rewrite_badges sel (erase (Node j k cs))"
  using assms by (simp add: erase_conv [of n'] matches_kind comp_def)

lemma refine_document:
  assumes "wf_dom d" and shape: "same_shape (set (document_query_selector_all sel d)) d d'"
    and B: "\<And>x m. x \<in> set (document_query_selector_all sel d) \<Longrightarrow> deref d x = Some m \<Longrightarrow>
      \<exists>r. deref d' x = Some r \<and> rewritten m r"
  shows "erase (document d') = rewrite_document sel (erase (document d))"
proof -
  note facts = assms(1) shape B erase_rewritten erase_unselected
  from facts have "kind (document d') = kind (document d)"
    by (rule observe_document(1) [where obs = erase and sel = sel])
  moreover from facts have "map erase (child_nodes (document d')) =
      map (\<lambda>n. rewrite_badges sel (erase n)) (child_nodes (document d))"
    by (rule observe_document(2) [where obs = erase and sel = sel])
  ultimately show ?thesis
    by (simp add: erase_conv [of "document d'"] erase_conv [of "document d"] comp_def)
qed

section \<open>The elements selected after a run\<close>

text \<open>
  \<open>selected sel n\<close> are the references \<^verbatim>\<open>querySelectorAll\<close> finds at and
  below \<open>n\<close>, and \<open>outermost sel n\<close> those of them that are not inside
  another one. After a run the selected elements are the outermost ones of
  before: a selected element has lost its element children.
\<close>

definition selected :: "selector \<Rightarrow> node \<Rightarrow> node_id list" where
  "selected sel n = map node_id (filter (matches sel) (inclusive_descendants n))"

fun outermost :: "selector \<Rightarrow> node \<Rightarrow> node_id list" where
  "outermost sel (Node i k cs) =
     (if matches sel (Node i k cs) then [i] else concat (map (outermost sel) cs))"

lemma selected_nodes_of:
  "map node_id (filter (matches sel) (nodes_of cs)) = concat (map (selected sel) cs)"
  by (induction cs) (simp_all add: selected_def)

lemma selected_conv:
  "selected sel n =
     (if matches sel n then [node_id n] else []) @ concat (map (selected sel) (child_nodes n))"
  by (cases n) (simp add: selected_def selected_nodes_of)

lemma document_query_conv:
  "document_query_selector_all sel d = concat (map (selected sel) (child_nodes (document d)))"
  by (simp add: document_query_selector_all_def query_selector_all_def descendants_def
      selected_nodes_of)

lemma selected_new_text_nodes [simp]:
  "concat (map (selected sel) (new_text_nodes fresh s)) = []"
  by (cases sel) (simp add: new_text_nodes_def selected_def)

lemma selected_rewritten:
  assumes "matches sel m" and "rewritten m r"
  shows "selected sel r = outermost sel m"
proof -
  from assms(2) obtain fresh where
    r: "r = Node (node_id m) (kind m) (new_text_nodes fresh (new_text (descendant_text m)))"
    by (cases r) (auto simp: rewritten_def)
  with assms(1) have "matches sel r"
    by (simp add: matches_kind)
  with r have "selected sel r = [node_id m]"
    by (subst selected_conv) simp
  with assms(1) show ?thesis
    by (cases m) simp
qed

lemma selected_unselected:
  assumes "\<not> matches sel (Node j k cs)" and "kind n' = k"
    and "map (selected sel) (child_nodes n') = map (outermost sel) cs"
  shows "selected sel n' = outermost sel (Node j k cs)"
proof -
  from assms(1,2) have "\<not> matches sel n'"
    by (simp add: matches_kind)
  with assms(1,3) show ?thesis
    by (subst selected_conv) simp
qed

lemma query_after:
  assumes "wf_dom d" and shape: "same_shape (set (document_query_selector_all sel d)) d d'"
    and B: "\<And>x m. x \<in> set (document_query_selector_all sel d) \<Longrightarrow> deref d x = Some m \<Longrightarrow>
      \<exists>r. deref d' x = Some r \<and> rewritten m r"
  shows "document_query_selector_all sel d' =
    concat (map (outermost sel) (child_nodes (document d)))"
proof -
  have "map (selected sel) (child_nodes (document d')) =
      map (outermost sel) (child_nodes (document d))"
    using assms(1) shape B selected_rewritten selected_unselected
    by (rule observe_document(2) [where obs = "selected sel" and sel = sel])
  then show ?thesis
    by (simp add: document_query_conv)
qed

section \<open>The listener\<close>

lemma listener_same_shape:
  assumes "wf_dom p" and "on_dom_content_loaded p = Normal p'"
  shows "same_shape (set (document_query_selector_all category_count_selector p)) p p'"
proof -
  let ?xs = "document_query_selector_all category_count_selector p"
  let ?p1 = "console_log (js_lit ''X'') p"
  from assms(2) have "for_each ?xs strip_count ?p1 = Normal p'"
    by (simp add: on_dom_content_loaded_conv)
  moreover have "\<forall>x\<in>set ?xs. \<exists>n. deref ?p1 x = Some n \<and> is_element n"
    using query_elements [OF assms(1)] by simp
  ultimately have "same_shape (set ?xs) ?p1 p'"
    using assms(1) by (intro for_each_strip_count_shape) simp_all
  then show ?thesis
    by (simp add: same_shape_def)
qed

lemma listener_rewrites:
  assumes "wf_dom p" and "on_dom_content_loaded p = Normal p'"
    and "x \<in> set (document_query_selector_all category_count_selector p)" and "deref p x = Some m"
  shows "\<exists>r. deref p' x = Some r \<and> rewritten m r"
  using on_dom_content_loaded_run [OF assms(1)] assms(2-4) by fastforce

lemma listener_refines:
  assumes "wf_dom p" and "on_dom_content_loaded p = Normal p'"
  shows "erase (document p') = rewrite_document category_count_selector (erase (document p))"
  using assms(1) listener_same_shape [OF assms] listener_rewrites [OF assms]
  by (rule refine_document)

lemma listener_selects:
  assumes "wf_dom p" and "on_dom_content_loaded p = Normal p'"
  shows "document_query_selector_all category_count_selector p' =
    concat (map (outermost category_count_selector) (child_nodes (document p)))"
  using assms(1) listener_same_shape [OF assms] listener_rewrites [OF assms]
  by (rule query_after)

end
