(* ===== verification/Page_Load.thy ===== *)
theory Page_Load
  imports Refinement
begin

text \<open>
  The top level of \<^verbatim>\<open>src/_resources/js/scripts.js\<close> and the page load
  around it. The script's one statement (lines 1 to 12) creates a function
  object and registers it with \<^verbatim>\<open>document.addEventListener\<close> for the
  event \<^verbatim>\<open>DOMContentLoaded\<close>; the browser dispatches that event once, when
  the parser has finished, to the listeners registered by then, in the order
  of registration. The state is the page with the phase of the load, the
  listeners of the document, the counter that gives function objects their
  identity, and the exceptions the browser reported. The events of a load are
  steps of a relation; \<open>exec\<close> and \<open>run\<close> are its executable form.
\<close>

section \<open>State and definitions\<close>

datatype phase = Loading | Interactive | Content_loaded | Complete

text \<open>The phases are ordered as a load goes through them.\<close>

fun phase_rank :: "phase \<Rightarrow> nat" where
  "phase_rank Loading = 0"
| "phase_rank Interactive = 1"
| "phase_rank Content_loaded = 2"
| "phase_rank Complete = 3"

lemma phase_rank_inj: "phase_rank p = phase_rank q \<longleftrightarrow> p = q"
  by (cases p; cases q) simp_all

instantiation phase :: linorder
begin

definition less_eq_phase :: "phase \<Rightarrow> phase \<Rightarrow> bool" where
  "p \<le> q \<longleftrightarrow> phase_rank p \<le> phase_rank q"

definition less_phase :: "phase \<Rightarrow> phase \<Rightarrow> bool" where
  "p < q \<longleftrightarrow> phase_rank p < phase_rank q"

instance
  by standard (auto simp: less_eq_phase_def less_phase_def phase_rank_inj)

end

type_synonym closure = nat

record browser = page +
  phase :: phase
  listeners :: "(jsstring \<times> closure) list"
  next_closure :: closure
  uncaught :: "js_error list"

text \<open>The type of the event the browser dispatches when the parser has finished.\<close>

definition dom_content_loaded :: jsstring where
  "dom_content_loaded = js_lit ''DOMContentLoaded''"

text \<open>
  \<^verbatim>\<open>addEventListener\<close> appends the listener unless the list holds the same
  callback for the same type already.
\<close>

definition add_event_listener :: "jsstring \<Rightarrow> closure \<Rightarrow> 'a browser_scheme \<Rightarrow> 'a browser_scheme" where
  "add_event_listener ty f b =
     (if (ty, f) \<in> set (listeners b) then b else b\<lparr>listeners := listeners b @ [(ty, f)]\<rparr>)"

text \<open>
  The script: the function expression evaluates to a new function object, which
  is registered.
\<close>

definition run_script :: "'a browser_scheme \<Rightarrow> 'a browser_scheme" where
  "run_script b =
     (let f = next_closure b
      in add_event_listener (js_lit ''DOMContentLoaded'') f (b\<lparr>next_closure := Suc f\<rparr>))"

text \<open>
  Calling a listener: every function object the script creates has the body
  \<open>on_dom_content_loaded\<close>. An exception it throws is reported and not
  passed on.
\<close>

definition invoke :: "closure \<Rightarrow> 'a browser_scheme \<Rightarrow> 'a browser_scheme" where
  "invoke f b =
     (case on_dom_content_loaded b of
        Normal b' \<Rightarrow> b'
      | Throw (e, b') \<Rightarrow> b'\<lparr>uncaught := uncaught b' @ [e]\<rparr>)"

text \<open>
  Dispatch of an event at the document: the listeners registered for its type
  when the dispatch starts are called in the order of registration.
\<close>

definition dispatch :: "jsstring \<Rightarrow> 'a browser_scheme \<Rightarrow> 'a browser_scheme" where
  "dispatch ty b = fold invoke (map snd (filter (\<lambda>l. fst l = ty) (listeners b))) b"

datatype event = Run_script | End_of_parsing | Fire_dom_content_loaded | Fire_load

text \<open>
  The steps of a load. The script may run in any phase (in the head, deferred,
  or injected later). The parser finishes once; \<^verbatim>\<open>DOMContentLoaded\<close> is
  dispatched once, after that; \<^verbatim>\<open>load\<close> ends the load (it is dispatched at
  the window, so no listener of the document is called).
\<close>

inductive step :: "'a browser_scheme \<Rightarrow> event \<Rightarrow> 'a browser_scheme \<Rightarrow> bool" where
  run_script: "step b Run_script (run_script b)"
| end_of_parsing: "phase b = Loading \<Longrightarrow> step b End_of_parsing (b\<lparr>phase := Interactive\<rparr>)"
| fire_dom_content_loaded:
    "phase b = Interactive \<Longrightarrow>
     step b Fire_dom_content_loaded ((dispatch dom_content_loaded b)\<lparr>phase := Content_loaded\<rparr>)"
| fire_load: "phase b = Content_loaded \<Longrightarrow> step b Fire_load (b\<lparr>phase := Complete\<rparr>)"

inductive_cases step_Run_scriptE [elim!]: "step b Run_script b'"
inductive_cases step_End_of_parsingE [elim!]: "step b End_of_parsing b'"
inductive_cases step_Fire_dom_content_loadedE [elim!]: "step b Fire_dom_content_loaded b'"
inductive_cases step_Fire_loadE [elim!]: "step b Fire_load b'"

fun exec :: "event \<Rightarrow> 'a browser_scheme \<Rightarrow> 'a browser_scheme option" where
  "exec Run_script b = Some (run_script b)"
| "exec End_of_parsing b = (if phase b = Loading then Some (b\<lparr>phase := Interactive\<rparr>) else None)"
| "exec Fire_dom_content_loaded b =
     (if phase b = Interactive
      then Some ((dispatch dom_content_loaded b)\<lparr>phase := Content_loaded\<rparr>) else None)"
| "exec Fire_load b = (if phase b = Content_loaded then Some (b\<lparr>phase := Complete\<rparr>) else None)"

fun run :: "event list \<Rightarrow> 'a browser_scheme \<Rightarrow> 'a browser_scheme option" where
  "run [] b = Some b"
| "run (e # es) b = (case exec e b of None \<Rightarrow> None | Some b' \<Rightarrow> run es b')"

text \<open>The start of a load: a page, no listener, nothing written or reported.\<close>

definition initial :: "dom \<Rightarrow> browser" where
  "initial d =
     \<lparr>document = document d, detached = detached d, next_id = next_id d, console = [],
      phase = Loading, listeners = [], next_closure = 0, uncaught = []\<rparr>"

inductive reachable :: "browser \<Rightarrow> bool" where
  initial: "wf_dom d \<Longrightarrow> reachable (initial d)"
| step: "reachable b \<Longrightarrow> step b e b' \<Longrightarrow> reachable b'"

text \<open>\<open>fired ph\<close>: in phase \<open>ph\<close> the event has been dispatched.\<close>

fun fired :: "phase \<Rightarrow> bool" where
  "fired Loading = False"
| "fired Interactive = False"
| "fired Content_loaded = True"
| "fired Complete = True"

abbreviation page_of :: "'a page_scheme \<Rightarrow> page" where
  "page_of \<equiv> page.truncate"

section \<open>The relation and its executable form\<close>

lemma step_iff_exec: "step b e b' \<longleftrightarrow> exec e b = Some b'"
  by (cases e) (auto intro: step.intros)

lemma run_Cons_eq_Some:
  "run (e # es) b = Some b' \<longleftrightarrow> (\<exists>b1. exec e b = Some b1 \<and> run es b1 = Some b')"
  by (simp split: option.splits)

lemma run_append:
  "run (es @ fs) b = (case run es b of None \<Rightarrow> None | Some b' \<Rightarrow> run fs b')"
  by (induction es arbitrary: b) (simp_all split: option.splits)

lemma run_append_eq_Some:
  "run (es @ fs) b = Some b' \<longleftrightarrow> (\<exists>b1. run es b = Some b1 \<and> run fs b1 = Some b')"
  by (simp add: run_append split: option.splits)

lemma run_snoc_eq_Some:
  "run (es @ [e]) b = Some b' \<longleftrightarrow> (\<exists>b1. run es b = Some b1 \<and> exec e b1 = Some b')"
  by (auto simp: run_append_eq_Some split: option.splits)

lemma reachable_run:
  assumes "reachable b" and "run es b = Some b'"
  shows "reachable b'"
  using assms
proof (induction es arbitrary: b)
  case (Cons e es)
  from Cons.prems(2) obtain b1 where b1: "exec e b = Some b1" "run es b1 = Some b'"
    by (auto split: option.splits)
  from Cons.prems(1) b1(1) have "reachable b1"
    by (auto intro: reachable.step simp: step_iff_exec)
  then show ?case
    using b1(2) by (rule Cons.IH)
qed simp

lemma reachable_iff_run:
  "reachable b \<longleftrightarrow> (\<exists>d es. wf_dom d \<and> run es (initial d) = Some b)"
proof
  assume "reachable b"
  then show "\<exists>d es. wf_dom d \<and> run es (initial d) = Some b"
  proof induction
    case (initial d)
    then have "wf_dom d \<and> run [] (initial d) = Some (initial d)"
      by simp
    then show ?case by blast
  next
    case (step b e b')
    then obtain d es where "wf_dom d" "run es (initial d) = Some b"
      by blast
    with step.hyps(2) have "wf_dom d \<and> run (es @ [e]) (initial d) = Some b'"
      by (simp add: run_snoc_eq_Some step_iff_exec)
    then show ?case by blast
  qed
next
  assume "\<exists>d es. wf_dom d \<and> run es (initial d) = Some b"
  then show "reachable b"
    by (auto intro: reachable_run reachable.initial)
qed

section \<open>Calling the listener\<close>

text \<open>
  \<open>ran n b b'\<close>: \<open>b'\<close> is \<open>b\<close> after \<open>n\<close> calls of the listener that
  completed: the document rewritten \<open>n\<close> times, \<open>n\<close> lines on the console,
  the rest of the state as it was.
\<close>

definition ran :: "nat \<Rightarrow> 'a browser_scheme \<Rightarrow> 'a browser_scheme \<Rightarrow> bool" where
  "ran n b b' \<longleftrightarrow>
     wf_dom b' \<and>
     erase (document b') = (rewrite_document category_count_selector ^^ n) (erase (document b)) \<and>
     console b' = console b @ replicate n (js_lit ''X'') \<and>
     page.more b' = page.more b"

lemma ran_refl: "wf_dom b \<Longrightarrow> ran 0 b b"
  by (simp add: ran_def)

lemma ran_trans:
  assumes "ran m a b" and "ran n b c"
  shows "ran (m + n) a c"
  using assms by (simp add: ran_def funpow_add_apply replicate_add)

lemma ran_invoke:
  assumes "wf_dom b"
  shows "ran 1 b (invoke f b)"
proof -
  from on_dom_content_loaded_run [OF assms] obtain b' where
    b': "on_dom_content_loaded b = Normal b'" "wf_dom b'"
    by blast
  then have "invoke f b = b'"
    by (simp add: invoke_def)
  with assms b' show ?thesis
    by (simp add: ran_def listener_refines console_on_dom_content_loaded
        more_on_dom_content_loaded)
qed

lemma ran_fold_invoke:
  assumes "wf_dom b"
  shows "ran (length fs) b (fold invoke fs b)"
  using assms
proof (induction fs arbitrary: b)
  case Nil
  then show ?case by (simp add: ran_refl)
next
  case (Cons f fs)
  from Cons.prems have 1: "ran 1 b (invoke f b)"
    by (rule ran_invoke)
  then have "wf_dom (invoke f b)"
    by (simp add: ran_def)
  then have "ran (length fs) (invoke f b) (fold invoke fs (invoke f b))"
    by (rule Cons.IH)
  with 1 have "ran (1 + length fs) b (fold invoke fs (invoke f b))"
    by (rule ran_trans)
  then show ?case by simp
qed

lemma ran_fields:
  assumes "ran n b b'"
  shows "phase b' = phase b" "listeners b' = listeners b" "next_closure b' = next_closure b"
    "uncaught b' = uncaught b"
  using assms by (cases b, cases b', simp add: ran_def)+

section \<open>The invariant of a load\<close>

text \<open>
  \<open>load_inv\<close>: the page is well-formed, no exception has been reported, and
  the listeners are the function objects created so far, each registered once
  for \<^verbatim>\<open>DOMContentLoaded\<close>, in the order of creation.
\<close>

definition load_inv :: "'a browser_scheme \<Rightarrow> bool" where
  "load_inv b \<longleftrightarrow>
     wf_dom b \<and> uncaught b = [] \<and>
     listeners b = map (Pair dom_content_loaded) [0..<next_closure b]"

lemma wf_dom_initial [simp]: "wf_dom (initial d) = wf_dom d"
  by (simp add: initial_def wf_dom_def roots_def)

lemma load_inv_initial: "wf_dom d \<Longrightarrow> load_inv (initial d)"
  by (simp add: load_inv_def) (simp add: initial_def)

lemma wf_dom_browser_update [simp]:
  "wf_dom (b\<lparr>phase := ph\<rparr>) = wf_dom b"
  "wf_dom (b\<lparr>listeners := ls\<rparr>) = wf_dom b"
  "wf_dom (b\<lparr>next_closure := k\<rparr>) = wf_dom b"
  by (simp_all add: wf_dom_def roots_def)

lemma run_script_conv:
  assumes "load_inv b"
  shows "run_script b =
    b\<lparr>next_closure := Suc (next_closure b),
      listeners := listeners b @ [(dom_content_loaded, next_closure b)]\<rparr>"
  using assms
  by (auto simp: run_script_def add_event_listener_def load_inv_def Let_def dom_content_loaded_def)

lemma load_inv_run_script: "load_inv b \<Longrightarrow> load_inv (run_script b)"
  by (simp add: run_script_conv) (simp add: load_inv_def)

lemma dispatch_conv:
  assumes "load_inv b"
  shows "dispatch dom_content_loaded b = fold invoke [0..<next_closure b] b"
proof -
  have "map snd (filter (\<lambda>l. fst l = ty) (map (Pair ty) fs)) = fs" for ty :: jsstring and fs :: "closure list"
    by (induction fs) simp_all
  with assms show ?thesis
    by (simp add: dispatch_def load_inv_def)
qed

lemma ran_dispatch:
  assumes "load_inv b"
  shows "ran (next_closure b) b (dispatch dom_content_loaded b)"
  using ran_fold_invoke [of b "[0..<next_closure b]"] assms
  by (simp add: dispatch_conv) (simp add: load_inv_def)

lemma load_inv_dispatch:
  assumes "load_inv b"
  shows "load_inv (dispatch dom_content_loaded b)"
  using ran_dispatch [OF assms] ran_fields [OF ran_dispatch [OF assms]] assms
  by (simp add: load_inv_def ran_def)

lemma load_inv_phase [simp]: "load_inv (b\<lparr>phase := ph\<rparr>) = load_inv b"
  by (simp add: load_inv_def)

lemma load_inv_exec:
  assumes "load_inv b" and "exec e b = Some b'"
  shows "load_inv b'"
  using assms by (cases e) (auto simp: load_inv_run_script load_inv_dispatch split: if_splits)

lemma load_inv_run:
  assumes "load_inv b" and "run es b = Some b'"
  shows "load_inv b'"
  using assms
  by (induction es arbitrary: b) (auto split: option.splits dest: load_inv_exec)

lemma reachable_load_inv: "reachable b \<Longrightarrow> load_inv b"
  by (induction rule: reachable.induct) (auto simp: load_inv_initial step_iff_exec dest: load_inv_exec)

section \<open>Before and after the event\<close>

lemma page_of_simps [simp]:
  "document (page_of b) = document b"
  "detached (page_of b) = detached b"
  "next_id (page_of b) = next_id b"
  "console (page_of b) = console b"
  by (simp_all add: page.truncate_def)

lemma page_of_eq_iff:
  "page_of b' = page_of b \<longleftrightarrow>
     document b' = document b \<and> detached b' = detached b \<and> next_id b' = next_id b \<and>
     console b' = console b"
  by (auto simp: page.truncate_def)

lemma run_script_frame [simp]:
  "page_of (run_script b) = page_of b"
  "phase (run_script b) = phase b"
  "uncaught (run_script b) = uncaught b"
  "next_closure (run_script b) = Suc (next_closure b)"
  by (simp_all add: run_script_def add_event_listener_def Let_def page.truncate_def)

lemma page_of_phase [simp]: "page_of (b\<lparr>phase := ph\<rparr>) = page_of b"
  by (simp add: page.truncate_def)

lemma exec_Fire_dom_content_loaded:
  "exec Fire_dom_content_loaded b = Some b' \<longleftrightarrow>
     phase b = Interactive \<and> b' = (dispatch dom_content_loaded b)\<lparr>phase := Content_loaded\<rparr>"
  by auto

lemma fired_iff: "fired ph \<longleftrightarrow> Content_loaded \<le> ph"
  by (cases ph) (simp_all add: less_eq_phase_def)

text \<open>Once the event has been dispatched no step changes the page.\<close>

lemma exec_after:
  assumes "fired (phase b)" and "exec e b = Some b'"
  shows "fired (phase b') \<and> page_of b' = page_of b \<and> uncaught b' = uncaught b \<and>
    e \<noteq> Fire_dom_content_loaded"
  using assms by (cases e) (auto split: if_splits)

lemma run_after:
  assumes "fired (phase b)" and "run es b = Some b'"
  shows "fired (phase b') \<and> page_of b' = page_of b \<and> uncaught b' = uncaught b \<and>
    Fire_dom_content_loaded \<notin> set es"
  using assms
proof (induction es arbitrary: b)
  case (Cons e es)
  from Cons.prems(2) obtain b1 where b1: "exec e b = Some b1" "run es b1 = Some b'"
    by (auto split: option.splits)
  from exec_after [OF Cons.prems(1) b1(1)] Cons.IH [OF _ b1(2)] show ?case
    by auto
qed simp

text \<open>Before the event, steps register listeners and change nothing of the page.\<close>

lemma exec_before:
  assumes "exec e b = Some b'" and "e \<noteq> Fire_dom_content_loaded" and "\<not> fired (phase b)"
  shows "\<not> fired (phase b') \<and> page_of b' = page_of b \<and>
    next_closure b' = next_closure b + count_list [e] Run_script"
  using assms by (cases e) (auto split: if_splits)

lemma run_before:
  assumes "run es b = Some b'" and "Fire_dom_content_loaded \<notin> set es" and "\<not> fired (phase b)"
  shows "\<not> fired (phase b') \<and> page_of b' = page_of b \<and>
    next_closure b' = next_closure b + count_list es Run_script"
  using assms
proof (induction es arbitrary: b)
  case (Cons e es)
  from Cons.prems(1) obtain b1 where b1: "exec e b = Some b1" "run es b1 = Some b'"
    by (auto split: option.splits)
  from Cons.prems(2,3) exec_before [OF b1(1)] Cons.IH [OF b1(2)] show ?case
    by auto
qed simp

lemma run_fired:
  assumes "run es b = Some b'" and "Fire_dom_content_loaded \<in> set es"
  shows "fired (phase b')"
  using assms
proof (induction es arbitrary: b)
  case (Cons e es)
  from Cons.prems(1) obtain b1 where b1: "exec e b = Some b1" "run es b1 = Some b'"
    by (auto split: option.splits)
  show ?case
  proof (cases "e = Fire_dom_content_loaded")
    case True
    with b1(1) have "fired (phase b1)"
      by (auto split: if_splits)
    then show ?thesis
      using b1(2) run_after by blast
  next
    case False
    with Cons.prems(2) b1(2) show ?thesis
      by (auto intro: Cons.IH)
  qed
qed simp

text \<open>
  A load in which the event is dispatched: the listeners registered before
  the event have each run once, those registered after it not at all.
\<close>

lemma run_until_event:
  assumes "run es b = Some b1" and "phase b1 = Interactive"
  shows "page_of b1 = page_of b" and "next_closure b1 = next_closure b + count_list es Run_script"
proof -
  from assms have no: "Fire_dom_content_loaded \<notin> set es"
    using run_fired by fastforce
  have "\<not> fired (phase b)"
  proof
    assume "fired (phase b)"
    with assms(1) have "fired (phase b1)"
      using run_after by blast
    with assms(2) show False by simp
  qed
  with assms(1) no show "page_of b1 = page_of b"
    and "next_closure b1 = next_closure b + count_list es Run_script"
    using run_before by blast+
qed

lemma run_load:
  assumes "load_inv b" and "run (es1 @ Fire_dom_content_loaded # es2) b = Some b'"
  defines "n \<equiv> next_closure b + count_list es1 Run_script"
  shows "load_inv b'"
    and "erase (document b') =
      (rewrite_document category_count_selector ^^ n) (erase (document b))"
    and "console b' = console b @ replicate n (js_lit ''X'')"
proof -
  from assms(2) obtain b1 b2 where b1: "run es1 b = Some b1"
    and b2: "exec Fire_dom_content_loaded b1 = Some b2" and b': "run es2 b2 = Some b'"
    by (auto simp: run_append_eq_Some split: option.splits)
  from b2 have ph: "phase b1 = Interactive" and b2_eq:
    "b2 = (dispatch dom_content_loaded b1)\<lparr>phase := Content_loaded\<rparr>"
    by (auto split: if_splits)
  note pre = run_until_event [OF b1 ph, folded n_def]
  have "load_inv b1"
    using assms(1) b1 by (rule load_inv_run)
  then have ran: "ran (next_closure b1) b1 (dispatch dom_content_loaded b1)"
    by (rule ran_dispatch)
  from b2_eq have "fired (phase b2)" "page_of b2 = page_of (dispatch dom_content_loaded b1)"
    by simp_all
  with b' have post: "page_of b' = page_of (dispatch dom_content_loaded b1)"
    using run_after by metis
  show "load_inv b'"
    using assms(1,2) by (rule load_inv_run)
  from ran pre post show "erase (document b') =
      (rewrite_document category_count_selector ^^ n) (erase (document b))"
    and "console b' = console b @ replicate n (js_lit ''X'')"
    by (simp_all add: ran_def page_of_eq_iff)
qed

section \<open>Completing a load\<close>

text \<open>\<open>remaining ph\<close>: the events that take a load in phase \<open>ph\<close> to its end.\<close>

fun remaining :: "phase \<Rightarrow> event list" where
  "remaining Loading = [End_of_parsing, Fire_dom_content_loaded, Fire_load]"
| "remaining Interactive = [Fire_dom_content_loaded, Fire_load]"
| "remaining Content_loaded = [Fire_load]"
| "remaining Complete = []"

section \<open>Example loads\<close>

text \<open>
  The example page of theory \<open>Handler\<close> loaded with the script in the
  head (\<open>example_interactive\<close> before the event, \<open>example_loaded\<close> at
  the end), and loaded with the script run only after the event
  (\<open>example_late\<close>, \<open>example_late_end\<close>).
\<close>

definition example_dom :: dom where
  "example_dom = \<lparr>document = document example_page, detached = [], next_id = 7\<rparr>"

definition example_loaded :: browser where
  "example_loaded =
     \<lparr>document = document example_result, detached = detached example_result, next_id = 8,
      console = [js_lit ''X''], phase = Complete, listeners = [(dom_content_loaded, 0)],
      next_closure = 1, uncaught = []\<rparr>"

definition example_interactive :: browser where
  "example_interactive =
     \<lparr>document = document example_page, detached = [], next_id = 7,
      console = [], phase = Interactive, listeners = [(dom_content_loaded, 0)],
      next_closure = 1, uncaught = []\<rparr>"

definition example_late :: browser where
  "example_late =
     \<lparr>document = document example_page, detached = [], next_id = 7,
      console = [], phase = Content_loaded, listeners = [], next_closure = 0, uncaught = []\<rparr>"

definition example_late_end :: browser where
  "example_late_end =
     \<lparr>document = document example_page, detached = [], next_id = 7,
      console = [], phase = Complete,
      listeners = [(dom_content_loaded, 0), (dom_content_loaded, 1)],
      next_closure = 2, uncaught = []\<rparr>"

lemmas load_eval = example_dom_def example_loaded_def example_interactive_def example_late_def
  example_late_end_def initial_def run_script_def add_event_listener_def dispatch_def invoke_def
  dom_content_loaded_def page_eval

lemma example_dom_wf: "wf_dom example_dom"
  by (simp add: load_eval roots_def)

lemma example_load:
  "run ([Run_script, End_of_parsing] @ Fire_dom_content_loaded # [Fire_load]) (initial example_dom) =
     Some example_loaded"
  by (simp add: load_eval)

lemma example_interactive_run:
  "run [Run_script, End_of_parsing] (initial example_dom) = Some example_interactive"
  by (simp add: load_eval)

lemma example_late_run:
  "run [End_of_parsing, Fire_dom_content_loaded] (initial example_dom) = Some example_late"
  "run [Run_script, Fire_load, Run_script] example_late = Some example_late_end"
  by (simp_all add: load_eval)

lemma example_remaining:
  "run (remaining (phase example_interactive)) example_interactive = Some example_loaded"
  by (simp add: load_eval)

lemma example_reachable: "reachable example_loaded" "reachable example_interactive"
  using reachable_run [OF reachable.initial [OF example_dom_wf]] example_load
    example_interactive_run
  by blast+

section \<open>Reachable states\<close>

lemma reachable_before:
  assumes "reachable b" and "\<not> fired (phase b)"
  shows "console b = []"
proof -
  from assms(1) obtain d es where run: "run es (initial d) = Some b"
    by (auto simp: reachable_iff_run)
  with assms(2) have "Fire_dom_content_loaded \<notin> set es"
    using run_fired by blast
  with run have "page_of b = page_of (initial d)"
    using run_before [of es "initial d" b] by (simp add: initial_def)
  then show ?thesis
    by (simp add: page_of_eq_iff initial_def)
qed

lemma run_remaining:
  assumes "\<not> fired (phase b)"
  shows "\<exists>es1 b'. remaining (phase b) = es1 @ Fire_dom_content_loaded # [Fire_load] \<and>
    count_list es1 Run_script = 0 \<and>
    run (remaining (phase b)) b = Some b' \<and> phase b' = Complete"
  using assms by (cases "phase b") simp_all

section \<open>The load\<close>

text \<open>
  C4. A load in which the script ran \<open>n\<close> times before
  \<^verbatim>\<open>DOMContentLoaded\<close> was dispatched ends with the document rewritten
  \<open>n\<close> times, \<open>n\<close> lines on the console and no exception reported,
  whatever ran after the event: each registered listener is called once. With
  the script included once, the document is rewritten once.
\<close>

theorem load_effect:
  assumes "wf_dom d" and "run (es1 @ Fire_dom_content_loaded # es2) (initial d) = Some b"
  shows "erase (document b) =
      (rewrite_document category_count_selector ^^ count_list es1 Run_script) (erase (document d)) \<and>
    console b = replicate (count_list es1 Run_script) (js_lit ''X'') \<and> uncaught b = []"
  using run_load [OF load_inv_initial [OF assms(1)] assms(2)]
  by (simp add: load_inv_def) (simp add: initial_def)

theorem load_effect_witness:
  "wf_dom example_dom \<and>
   run ([Run_script, End_of_parsing] @ Fire_dom_content_loaded # [Fire_load]) (initial example_dom) =
     Some example_loaded \<and>
   erase (document example_loaded) =
     (rewrite_document category_count_selector ^^ count_list [Run_script, End_of_parsing] Run_script)
       (erase (document example_dom)) \<and>
   console example_loaded = replicate (count_list [Run_script, End_of_parsing] Run_script) (js_lit ''X'') \<and>
   uncaught example_loaded = []"
  using load_effect [OF example_dom_wf example_load] example_dom_wf example_load by blast

text \<open>
  C15. A script that runs after \<^verbatim>\<open>DOMContentLoaded\<close> has been dispatched
  has no effect on the page: the listener it registers is never called, so the
  badges keep their text.
\<close>

theorem late_script_never_runs:
  assumes "fired (phase b)" and "run es b = Some b'"
  shows "page_of b' = page_of b"
  using run_after [OF assms] by simp

theorem late_script_never_runs_witness:
  "fired (phase example_late) \<and>
   run [Run_script, Fire_load, Run_script] example_late = Some example_late_end \<and>
   page_of example_late_end = page_of example_late"
proof -
  have f: "fired (phase example_late)"
    by (simp add: example_late_def)
  from late_script_never_runs [OF f example_late_run(2)] f example_late_run(2) show ?thesis
    by blast
qed

text \<open>
  C12. Invariant of the load: in every state a load can reach, the page is
  well-formed, no exception has been reported, and the listeners of the
  document are the function objects the script created, one per run of the
  script, in that order.
\<close>

theorem reachable_invariant:
  assumes "reachable b"
  shows "wf_dom b \<and> uncaught b = [] \<and>
    listeners b = map (Pair dom_content_loaded) [0..<next_closure b]"
  using reachable_load_inv [OF assms] by (simp add: load_inv_def)

theorem reachable_invariant_witness:
  "reachable example_loaded \<and> wf_dom example_loaded \<and> uncaught example_loaded = [] \<and>
   listeners example_loaded = map (Pair dom_content_loaded) [0..<next_closure example_loaded]"
  using reachable_invariant [OF example_reachable(1)] example_reachable(1) by blast

text \<open>
  C16. Every listener registered before the event is called: from a state a
  load can reach before the event, the remaining events of the load can
  happen, and they end with the document rewritten once for each registered
  listener.
\<close>

theorem registered_listeners_run:
  assumes "reachable b" and "\<not> fired (phase b)"
  shows "\<exists>b'. run (remaining (phase b)) b = Some b' \<and> phase b' = Complete \<and>
    erase (document b') =
      (rewrite_document category_count_selector ^^ length (listeners b)) (erase (document b)) \<and>
    console b' = replicate (length (listeners b)) (js_lit ''X'')"
proof -
  from run_remaining [OF assms(2)] obtain es1 b' where
    es: "remaining (phase b) = es1 @ Fire_dom_content_loaded # [Fire_load]"
      "count_list es1 Run_script = 0"
    and b': "run (remaining (phase b)) b = Some b'" "phase b' = Complete"
    by blast
  have inv: "load_inv b"
    using assms(1) by (rule reachable_load_inv)
  then have "length (listeners b) = next_closure b"
    by (simp add: load_inv_def)
  with run_load(2,3) [OF inv b'(1) [unfolded es(1)]] es(2) reachable_before [OF assms] b'
  show ?thesis
    by simp
qed

theorem registered_listeners_run_witness:
  "reachable example_interactive \<and> \<not> fired (phase example_interactive) \<and>
   (\<exists>b'. run (remaining (phase example_interactive)) example_interactive = Some b' \<and>
      phase b' = Complete \<and>
      erase (document b') =
        (rewrite_document category_count_selector ^^ length (listeners example_interactive))
          (erase (document example_interactive)) \<and>
      console b' = replicate (length (listeners example_interactive)) (js_lit ''X''))"
proof -
  have f: "\<not> fired (phase example_interactive)"
    by (simp add: example_interactive_def)
  from registered_listeners_run [OF example_reachable(2) f] example_reachable(2) f show ?thesis
    by blast
qed

section \<open>Registration\<close>

text \<open>
  C25. Every run of the script registers one more listener: the function
  object is new each time, so the check of \<^verbatim>\<open>addEventListener\<close> for a
  listener that is registered already never applies, and a script included
  twice has its listener called twice.
\<close>

theorem run_script_registers:
  assumes "reachable b"
  shows "listeners (run_script b) = listeners b @ [(dom_content_loaded, next_closure b)]"
  using reachable_load_inv [OF assms] by (simp add: run_script_conv)

theorem run_script_registers_witness:
  "reachable example_interactive \<and>
   listeners (run_script example_interactive) =
     listeners example_interactive @ [(dom_content_loaded, next_closure example_interactive)]"
  using run_script_registers [OF example_reachable(2)] example_reachable(2) by blast

text \<open>
  Registering the same function object twice for a type leaves one listener.
\<close>

lemma add_event_listener_twice:
  "add_event_listener ty f (add_event_listener ty f b) = add_event_listener ty f b"
  by (simp add: add_event_listener_def)

end
