(* ===== verification/UTF16.thy ===== *)
theory UTF16
  imports Badge_Text
begin

text \<open>
  Code units and characters. \<^verbatim>\<open>text.length\<close> and \<^verbatim>\<open>text.slice\<close> of
  \<^verbatim>\<open>src/_resources/js/scripts.js\<close> count 16-bit code units, while a reader
  of the page sees characters: a character outside the Basic Multilingual
  Plane is a pair of code units, a high surrogate followed by a low one. This
  theory defines the characters of a string as JavaScript's string iterator
  yields them (\<open>characters\<close>), the strings without unpaired surrogates
  (\<open>well_formed\<close>, \<^verbatim>\<open>isWellFormed\<close>), and \<open>strip_characters\<close>, the
  rewrite read with characters in place of code units. The lemmas say on
  which texts the script's rewrite \<open>new_text\<close> agrees with it, and on which
  texts it keeps a string well-formed.
\<close>

section \<open>Surrogates, characters, well-formed strings\<close>

definition is_high_surrogate :: "code_unit \<Rightarrow> bool" where
  "is_high_surrogate c \<longleftrightarrow> 0xD800 \<le> c \<and> c \<le> 0xDBFF"

definition is_low_surrogate :: "code_unit \<Rightarrow> bool" where
  "is_low_surrogate c \<longleftrightarrow> 0xDC00 \<le> c \<and> c \<le> 0xDFFF"

fun characters :: "jsstring \<Rightarrow> jsstring list" where
  "characters [] = []"
| "characters [c] = [[c]]"
| "characters (c # d # s) =
     (if is_high_surrogate c \<and> is_low_surrogate d then [c, d] # characters s
      else [c] # characters (d # s))"

fun well_formed :: "jsstring \<Rightarrow> bool" where
  "well_formed [] = True"
| "well_formed [c] = (\<not> is_high_surrogate c \<and> \<not> is_low_surrogate c)"
| "well_formed (c # d # s) =
     (if is_high_surrogate c then is_low_surrogate d \<and> well_formed s
      else \<not> is_low_surrogate c \<and> well_formed (d # s))"

definition strip_characters :: "jsstring \<Rightarrow> jsstring" where
  "strip_characters s =
     (let cs = characters s in if 1 < length cs then concat (butlast (tl cs)) else [])"

section \<open>Characters\<close>

lemma high_not_low: "is_high_surrogate c \<Longrightarrow> \<not> is_low_surrogate c"
  by (simp add: is_high_surrogate_def is_low_surrogate_def word_le_nat_alt)

lemma concat_characters [simp]: "concat (characters s) = s"
  by (induction s rule: characters.induct) simp_all

lemma characters_eq_Nil_iff [simp]: "characters s = [] \<longleftrightarrow> s = []"
  by (cases s rule: characters.cases) simp_all

lemma length_character:
  "c \<in> set (characters s) \<Longrightarrow> length c = 1 \<or> length c = 2"
  by (induction s rule: characters.induct) (auto split: if_splits)

lemma characters_snoc:
  "\<not> is_low_surrogate c \<Longrightarrow> characters (s @ [c]) = characters s @ [[c]]"
  by (induction s rule: characters.induct) simp_all

lemma well_formed_snoc:
  "\<not> is_high_surrogate c \<Longrightarrow> \<not> is_low_surrogate c \<Longrightarrow>
     well_formed (s @ [c]) = well_formed s"
  by (induction s rule: well_formed.induct) (auto dest: high_not_low)

lemma well_formed_characters:
  "well_formed s \<longleftrightarrow>
     (\<forall>c\<in>set (characters s). length c = 1 \<longrightarrow> \<not> is_high_surrogate (hd c) \<and> \<not> is_low_surrogate (hd c))"
  by (induction s rule: characters.induct) (auto dest: high_not_low)


lemma characters_wrap:
  assumes "characters s = h # m @ [l]"
  shows "strip_characters s = concat m" and "s = h @ concat m @ l"
proof -
  from assms show "strip_characters s = concat m"
    by (simp add: strip_characters_def)
  have "s = concat (characters s)"
    by simp
  then show "s = h @ concat m @ l"
    unfolding assms by simp
qed

lemma strip_characters_short:
  assumes "length (characters s) \<le> 1"
  shows "strip_characters s = []" and "new_text s = []"
proof -
  from assms show "strip_characters s = []"
    by (simp add: strip_characters_def)
  from assms consider "characters s = []" | c where "characters s = [c]"
    by (cases "characters s") auto
  then have "length s \<le> 2"
  proof cases
    case 2
    then have "c \<in> set (characters s)" "s = concat [c]"
      using concat_characters [of s] by simp_all
    then show ?thesis
      using length_character [of c s] by auto
  qed simp
  then show "new_text s = []"
    by (simp add: new_text_eq_Nil_iff)
qed

lemma new_text_characters_long:
  assumes "1 < length (characters s)"
  shows "new_text s = strip_characters s \<longleftrightarrow>
    length (hd (characters s)) = 1 \<and> length (last (characters s)) = 1"
proof -
  from assms obtain h m l where cs: "characters s = h # m @ [l]"
    by (rule long_list_wrapE)
  note s = characters_wrap [OF cs]
  from cs have len: "length h = 1 \<or> length h = 2" "length l = 1 \<or> length l = 2"
    using length_character [of h s] length_character [of l s] by simp_all
  show ?thesis
  proof
    assume "new_text s = strip_characters s"
    then have "length (new_text s) = length (concat m)"
      by (simp add: s(1))
    then have "length h + length (concat m) + length l - 2 = length (concat m)"
      by (subst (asm) s(2)) simp
    with len show "length (hd (characters s)) = 1 \<and> length (last (characters s)) = 1"
      by (auto simp: cs)
  next
    assume "length (hd (characters s)) = 1 \<and> length (last (characters s)) = 1"
    then obtain a z where "h = [a]" "l = [z]"
      by (auto simp: cs length_Suc_conv)
    then have "new_text s = concat m"
      by (subst s(2)) simp
    then show "new_text s = strip_characters s"
      by (simp add: s(1))
  qed
qed

text \<open>
  C19. The rewrite removes the first and the last character, as a reader
  counts them, exactly on the texts of at most one character and on the texts
  whose first and last character are one code unit each.
\<close>

theorem new_text_characters_iff:
  "new_text s = strip_characters s \<longleftrightarrow>
     length (characters s) \<le> 1 \<or>
     length (hd (characters s)) = 1 \<and> length (last (characters s)) = 1"
proof (cases "1 < length (characters s)")
  case True
  with new_text_characters_long [OF True] show ?thesis
    by simp
next
  case False
  then show ?thesis
    by (simp add: strip_characters_short)
qed

section \<open>Well-formed strings\<close>

lemma low_first_ill_formed: "is_low_surrogate c \<Longrightarrow> \<not> well_formed (c # s)"
  by (cases s) (auto dest: high_not_low)

lemma high_last_ill_formed: "is_high_surrogate c \<Longrightarrow> \<not> well_formed (s @ [c])"
  by (induction s rule: well_formed.induct) (auto dest: high_not_low)

lemma well_formed_tl: "well_formed (c # s) \<Longrightarrow> \<not> is_high_surrogate c \<Longrightarrow> well_formed s"
  by (cases s) simp_all

lemma well_formed_butlast:
  assumes "well_formed (s @ [c])" and "\<not> is_low_surrogate c"
  shows "well_formed s"
  using assms high_last_ill_formed [of c s] well_formed_snoc [of c s] by blast

lemma well_formed_low_last:
  "well_formed (s @ [c]) \<Longrightarrow> is_low_surrogate c \<Longrightarrow> s \<noteq> [] \<and> is_high_surrogate (last s)"
  by (induction s rule: well_formed.induct) (auto split: if_splits)

lemma pair_first_ill_formed:
  assumes "well_formed (a # m @ [z])" and "is_high_surrogate a" and "m \<noteq> []"
  shows "\<not> well_formed m"
proof -
  from assms have "is_low_surrogate (hd m)"
    by (cases m) auto
  with assms(3) show ?thesis
    using low_first_ill_formed [of "hd m" "tl m"] by simp
qed

lemma pair_last_ill_formed:
  assumes "well_formed (m @ [z])" and "is_low_surrogate z" and "m \<noteq> []"
  shows "\<not> well_formed m"
proof -
  from assms(1,2) have "is_high_surrogate (last m)"
    using well_formed_low_last by blast
  with assms(3) show ?thesis
    using high_last_ill_formed [of "last m" "butlast m"] by simp
qed

text \<open>
  C20. On a well-formed text the rewrite gives a well-formed text exactly when
  the text has at most two code units, or neither starts with a high
  surrogate nor ends with a low one: it never splits a pair.
\<close>

theorem new_text_well_formed_iff:
  assumes "well_formed s"
  shows "well_formed (new_text s) \<longleftrightarrow>
    length s \<le> 2 \<or> \<not> is_high_surrogate (hd s) \<and> \<not> is_low_surrogate (last s)"
proof (cases "length s \<le> 2")
  case True
  then show ?thesis
    by (simp add: new_text_eq_Nil_iff [THEN iffD2])
next
  case False
  then obtain a m z where s: "s = a # m @ [z]"
    by (auto intro: long_list_wrapE [of s])
  with False have m: "m \<noteq> []" "new_text s = m"
    by auto
  show ?thesis
  proof (cases "is_high_surrogate a")
    case True
    with assms s m False show ?thesis
      using pair_first_ill_formed [of a m z] by simp
  next
    case not_high: False
    with assms s have wf: "well_formed (m @ [z])"
      using well_formed_tl by blast
    show ?thesis
    proof (cases "is_low_surrogate z")
      case True
      with wf m False s show ?thesis
        using pair_last_ill_formed [of m z] by simp
    next
      case False
      with wf have "well_formed m"
        by (rule well_formed_butlast)
      with False not_high m(2) s show ?thesis
        by simp
    qed
  qed
qed

theorem new_text_well_formed_iff_witness:
  "well_formed (js_lit ''(5)'') \<and> well_formed (new_text (js_lit ''(5)''))"
proof -
  have wf: "well_formed (js_lit ''(5)'')"
    by (simp add: js_defs is_high_surrogate_def is_low_surrogate_def)
  have "\<not> is_high_surrogate (hd (js_lit ''(5)'')) \<and> \<not> is_low_surrogate (last (js_lit ''(5)''))"
    by (simp add: js_defs is_high_surrogate_def is_low_surrogate_def)
  with new_text_well_formed_iff [OF wf] wf show ?thesis
    by blast
qed

text \<open>
  C26. A text of more than one character that starts with a character outside
  the Basic Multilingual Plane is rewritten to a text that starts with the
  second half of that character: an unpaired low surrogate.
\<close>

theorem new_text_breaks_pair:
  assumes "is_high_surrogate c" and "is_low_surrogate d" and "s \<noteq> []"
  shows "new_text (c # d # s) = d # butlast s \<and> \<not> well_formed (new_text (c # d # s))"
proof -
  from assms(3) have "new_text (c # d # s) = d # butlast s"
    by (simp add: new_text_conv_butlast_tl)
  with assms(2) show ?thesis
    by (simp add: low_first_ill_formed)
qed

theorem new_text_breaks_pair_witness:
  "is_high_surrogate 0xD83D \<and> is_low_surrogate 0xDE00 \<and> js_lit ''5'' \<noteq> [] \<and>
   new_text (0xD83D # 0xDE00 # js_lit ''5'') = 0xDE00 # butlast (js_lit ''5'') \<and>
   \<not> well_formed (new_text (0xD83D # 0xDE00 # js_lit ''5''))"
proof -
  have h: "is_high_surrogate 0xD83D" "is_low_surrogate 0xDE00" "js_lit ''5'' \<noteq> []"
    by (simp_all add: js_defs is_high_surrogate_def is_low_surrogate_def)
  from new_text_breaks_pair [OF h] h show ?thesis
    by blast
qed

end
