(* ===== verification/DOM_Kinds.thy ===== *)
theory DOM_Kinds
  imports Handler
begin

text \<open>
  Which kind of node may be the child of which, as the DOM standard's
  insertion checks have it: a document has doctype, element and comment
  children, an element has element, text and comment children, and the other
  kinds have none. \<open>well_kinded\<close> says so of a tree and \<open>wk_dom\<close> of a
  store, whose document tree moreover has the document as its root. The
  lemmas show that the \<^verbatim>\<open>textContent\<close> setter and the listener of
  \<^verbatim>\<open>src/_resources/js/scripts.js\<close> keep a store of this form: the one
  node they create is a text node below an element.
\<close>

section \<open>Well-kinded trees and stores\<close>

fun child_allowed :: "kind \<Rightarrow> kind \<Rightarrow> bool" where
  "child_allowed Document k =
     (case k of Doctype \<Rightarrow> True | Element _ _ \<Rightarrow> True | Comment _ \<Rightarrow> True | _ \<Rightarrow> False)"
| "child_allowed (Element _ _) k =
     (case k of Element _ _ \<Rightarrow> True | Text _ \<Rightarrow> True | Comment _ \<Rightarrow> True | _ \<Rightarrow> False)"
| "child_allowed _ _ = False"

fun well_kinded :: "node \<Rightarrow> bool" where
  "well_kinded (Node i k cs) \<longleftrightarrow> (\<forall>c\<in>set cs. child_allowed k (kind c) \<and> well_kinded c)"

definition wk_dom :: "'a dom_scheme \<Rightarrow> bool" where
  "wk_dom d \<longleftrightarrow> kind (document d) = Document \<and> (\<forall>r\<in>set (roots d). well_kinded r)"

section \<open>Trees\<close>

lemma well_kinded_conv:
  "well_kinded n \<longleftrightarrow> (\<forall>c\<in>set (child_nodes n). child_allowed (kind n) (kind c) \<and> well_kinded c)"
  by (cases n) simp

lemma well_kinded_new_text_nodes [simp]:
  "c \<in> set (new_text_nodes fresh s) \<Longrightarrow> well_kinded c"
  by (auto simp: new_text_nodes_def split: if_splits)

lemma well_kinded_subtree:
  "well_kinded n \<Longrightarrow> m \<in> set (inclusive_descendants n) \<Longrightarrow> well_kinded m"
  by (induction n) (auto simp: set_nodes_of)

lemma well_kinded_children_of:
  "well_kinded n \<Longrightarrow> c \<in> set (children_of i n) \<Longrightarrow> well_kinded c"
  by (induction n) (auto split: if_splits)

lemma well_kinded_replace_children:
  assumes "well_kinded n"
    and "\<forall>m\<in>set (inclusive_descendants n). node_id m = i \<longrightarrow> is_element m"
  shows "well_kinded (update_node i (set_children (new_text_nodes fresh s)) n)"
  using assms
proof (induction n)
  case (Node j k cs)
  show ?case
  proof (cases "i = j")
    case True
    with Node.prems(2) obtain t cl where "k = Element t cl"
      by (cases k) (simp_all add: is_element_def)
    with True show ?thesis
      by (auto simp: new_text_nodes_def)
  next
    case False
    have "well_kinded (update_node i (set_children (new_text_nodes fresh s)) c)" if "c \<in> set cs" for c
      using that Node.prems by (intro Node.IH) (auto simp: set_nodes_of)
    with False Node.prems(1) show ?thesis
      by simp
  qed
qed

lemma child_allowed_set_data [simp]:
  "child_allowed k (kind (set_data s n)) = child_allowed k (kind n)"
  "child_allowed (kind (set_data s n)) k = child_allowed (kind n) k"
  by (cases k; cases "kind n"; simp add: set_data_def)+

lemma kind_update_set_data [simp]:
  "child_allowed k (kind (update_node i (set_data s) n)) = child_allowed k (kind n)"
  by (cases n) simp

lemma well_kinded_set_data:
  "well_kinded n \<Longrightarrow> well_kinded (update_node i (set_data s) n)"
proof (induction n)
  case (Node j k cs)
  then show ?case
    by (cases "i = j") (auto simp: well_kinded_conv [of "set_data s (Node j k cs)"])
qed

section \<open>The setter keeps the kinds\<close>

lemma kind_document_string_replace_all [simp]:
  "kind (document (string_replace_all s i d)) = kind (document d)"
  by (simp add: string_replace_all_def Let_def)

lemma kind_update_set_data_Document [simp]:
  "kind (update_node i (set_data s) n) = Document \<longleftrightarrow> kind n = Document"
  by (cases n; cases "kind n") (simp_all add: set_data_def)

lemma wk_dom_string_replace_all:
  assumes "wf_dom d" and "wk_dom d" and "deref d i = Some n" and "is_element n"
  shows "wk_dom (string_replace_all s i d)"
proof -
  have el: "is_element m" if "m \<in> set (all_nodes d)" "node_id m = i" for m
    using deref_SomeI [OF assms(1) that(1)] that(2) assms(3,4) by simp
  have "well_kinded (update_node i (set_children (new_text_nodes (next_id d) s)) r)"
    if "r \<in> set (roots d)" for r
  proof (rule well_kinded_replace_children)
    show "well_kinded r"
      using assms(2) that by (simp add: wk_dom_def)
    show "\<forall>m\<in>set (inclusive_descendants r). node_id m = i \<longrightarrow> is_element m"
      using that el by (auto simp: all_nodes_def set_nodes_of)
  qed
  moreover have "well_kinded c" if "r \<in> set (roots d)" "c \<in> set (children_of i r)" for r c
    using assms(2) that by (auto simp: wk_dom_def intro: well_kinded_children_of)
  ultimately show ?thesis
    using assms(2) by (auto simp: wk_dom_def roots_string_replace_all)
qed

lemma wk_dom_replace_data: "wk_dom d \<Longrightarrow> wk_dom (replace_data s i d)"
  by (auto simp: wk_dom_def roots_replace_data well_kinded_set_data) (simp add: replace_data_def)

lemma wk_dom_set_text_content:
  assumes "wf_dom d" and "wk_dom d"
  shows "wk_dom (set_text_content i s d)"
proof (cases "deref d i")
  case None
  with assms(2) show ?thesis
    by (simp add: set_text_content_def)
next
  case (Some n)
  show ?thesis
  proof (cases "is_element n")
    case True
    with assms Some show ?thesis
      by (simp add: set_text_content_element wk_dom_string_replace_all)
  next
    case False
    with assms(2) Some show ?thesis
      by (auto simp: set_text_content_def is_element_def wk_dom_replace_data split: kind.splits)
  qed
qed

section \<open>The listener keeps the kinds\<close>

lemma wk_dom_console_log [simp]: "wk_dom (console_log s p) = wk_dom p"
  by (simp add: wk_dom_def)

lemma wk_dom_strip_count:
  assumes "wf_dom d \<and> wk_dom d" and "strip_count x d = Normal d'"
  shows "wf_dom d' \<and> wk_dom d'"
  using assms by (auto dest!: strip_count_NormalD intro: wf_dom_set_text_content wk_dom_set_text_content)

text \<open>
  C11. The listener keeps the kinds of the page in order: after it the root
  is still the document, and no node has a child of a kind it cannot have.
\<close>

theorem listener_keeps_kinds:
  assumes "wf_dom p" and "wk_dom p" and "on_dom_content_loaded p = Normal p'"
  shows "wk_dom p'"
proof -
  let ?p1 = "console_log (js_lit ''X'') p"
  from assms(3) have "for_each (document_query_selector_all category_count_selector p)
      strip_count ?p1 = Normal p'"
    by (simp add: on_dom_content_loaded_conv)
  then have "wf_dom p' \<and> wk_dom p'"
  proof (rule for_each_invariant)
    show "wf_dom ?p1 \<and> wk_dom ?p1"
      using assms(1,2) by simp
  qed (rule wk_dom_strip_count)
  then show ?thesis ..
qed

theorem listener_keeps_kinds_witness:
  "wf_dom example_page \<and> wk_dom example_page \<and>
   on_dom_content_loaded example_page = Normal example_result \<and> wk_dom example_result"
proof -
  have wk: "wk_dom example_page"
    by (simp add: wk_dom_def roots_def example_page_def)
  from listener_keeps_kinds [OF example_wf wk example_run] example_wf wk example_run
  show ?thesis
    by (intro conjI)
qed

end
