(* ===== verification/Spec2Isabelle.thy ===== *)
theory Spec2Isabelle
  imports Page_Load UTF16 DOM_Kinds
begin

text \<open>
  \<^bold>\<open>The program.\<close> The repository holds one script,
  \<^verbatim>\<open>src/_resources/js/scripts.js\<close> (12 lines). Its one top-level statement
  registers a listener for the document's \<^verbatim>\<open>DOMContentLoaded\<close> event.
  When the event is dispatched the listener writes \<^verbatim>\<open>X\<close> to the console
  (line 2), selects every element of class \<^verbatim>\<open>quarto-category-count\<close> with
  \<^verbatim>\<open>document.querySelectorAll\<close> (line 3), and for each of them, in
  document order (line 4), reads \<^verbatim>\<open>textContent\<close> (line 5) and writes back
  the text without its first and last code unit, \<^verbatim>\<open>text.slice(1, -1)\<close>,
  when it is longer than one code unit (lines 6 and 7), and the empty string
  otherwise (line 9). The script has no function of its own below the
  listener; what it does is decided by the built-ins it calls, so the model
  gives each of them the meaning the ECMAScript, DOM and HTML standards give
  it, as far as the script can observe it.

  \<^bold>\<open>Theories, in the order they build on each other.\<close>
  \<^item> \<open>Prelude\<close>: fact collections (\<open>js_defs\<close>, \<open>dom_defs\<close>); the result
    type of statements that may throw (\<open>Throw\<close>, \<open>Normal\<close>,
    \<open>bind_result\<close>); \<open>for_each\<close>, the loop of \<^verbatim>\<open>forEach\<close> over a
    static list, with its invariant rule; list facts.
  \<^item> \<open>JS_String\<close>: strings as lists of 16-bit code units (\<open>16 word\<close>);
    \<open>js_length\<close> is \<^verbatim>\<open>text.length\<close>; \<open>js_slice\<close> is
    \<^verbatim>\<open>String.prototype.slice\<close> for integer arguments, with
    \<open>rel_index\<close> the resolution of a negative or too large index.
  \<^item> \<open>Badge_Text\<close>: \<open>new_text\<close>, the value lines 6 to 10 assign, as a
    function of the text read on line 5.
  \<^item> \<open>UTF16\<close>: surrogates, the characters of a string as the string
    iterator yields them (\<open>characters\<close>), well-formed strings
    (\<open>well_formed\<close>), and \<open>strip_characters\<close>, the rewrite as the
    specification words it, on characters. These are specification
    definitions: the script itself never looks at surrogates.
  \<^item> \<open>DOM_Tree\<close>: \<open>node\<close>, a tree of nodes with identity, \<open>kind\<close>
    (document, doctype, element with tag and class list, text, comment) and
    children; tree order (\<open>inclusive_descendants\<close>, \<open>descendants\<close>); the
    \<^verbatim>\<open>textContent\<close> getter per kind (\<open>text_content\<close>, \<^verbatim>\<open>null\<close>
    as \<open>None\<close>); class selectors (\<open>matches\<close>, \<open>query_selector_all\<close>);
    \<open>update_node\<close>, \<open>set_children\<close> and \<open>children_of\<close>, the parts of
    the setter.
  \<^item> \<open>DOM_Store\<close>: the record \<open>dom\<close>: the document's tree, the subtrees
    removed from it (a removed node stays reachable through the static list
    the query returned), and the next identity to allocate. References are
    node identities (\<open>deref\<close>). \<open>document_query_selector_all\<close>,
    \<open>get_text_content\<close> and \<open>set_text_content\<close> are the three DOM calls
    of the script. \<open>wf_dom\<close> is the invariant: identities are unique and
    allocated.
  \<^item> \<open>Handler\<close>: the record \<open>page\<close> (the store and the console);
    \<open>strip_count\<close> is the arrow function of lines 4 to 11 and
    \<open>on_dom_content_loaded\<close> the listener of lines 1 to 12, each a function
    from the page to the new page or to an exception with the page at the
    throw.
  \<^item> \<open>DOM_Kinds\<close>: the second invariant of the store, \<open>wk_dom\<close>: the
    root of the document tree is the document, and every node has children
    only of the kinds the DOM allows it (\<open>child_allowed\<close>).
  \<^item> \<open>Document_Spec\<close>: the specification. Documents without node
    identities (\<open>doc_tree\<close>, \<open>erase\<close>) and the rewrite the script
    promises as one recursive function on them (\<open>rewrite_badges\<close>,
    \<open>rewrite_document\<close>): an outermost element of the class gets its text
    without the first and last code unit as its only child, every other node
    is kept.
  \<^item> \<open>Refinement\<close>: the simulation between the two levels. The loop
    invariant \<open>same_shape\<close> (outside the selected elements every node keeps
    its kind and the identities of its children) and the lemmas that rebuild
    an observation of the new document from it (\<open>observe_document\<close>,
    stated for any observation): the erased document, and the list of
    selected references (\<open>selected\<close>, \<open>outermost\<close>).
  \<^item> \<open>Page_Load\<close>: the top-level statement and the load around it. The
    record \<open>browser\<close> extends the page with the phase of the load, the
    document's listeners, the counter that names function objects and the
    exceptions reported. \<open>run_script\<close> is the statement of lines 1 to 12
    (a new function object, registered by \<open>add_event_listener\<close>);
    \<open>dispatch\<close> calls the listeners of an event type in order of
    registration, \<open>invoke\<close> calls one. The load is the relation \<open>step\<close>
    over four events (the script runs, the parser ends,
    \<^verbatim>\<open>DOMContentLoaded\<close> is dispatched, \<^verbatim>\<open>load\<close>), with \<open>exec\<close> and
    \<open>run\<close> its executable form and \<open>reachable\<close> the states of a load
    that starts with a well-formed page and no listener.
  \<^item> \<open>Spec2Isabelle\<close> (this theory): the root, with the properties that
    relate the listener to the specification.

  \<^bold>\<open>What the lemmas show.\<close>
  \<^item> \<open>JS_String\<close>: \<open>js_slice\<close> equals a reference definition for
    all integer arguments, the list of the code units whose index lies
    between the two arguments, each counted from the end when negative
    (\<open>nths\<close> over that set of indices); \<^verbatim>\<open>slice(1, -1)\<close> is
    \<open>butlast \<circ> tl\<close> on every string.
  \<^item> \<open>Badge_Text\<close>: the two branches of the rewrite; \<open>n\<close> rewrites as
    one slice; the texts on which a second rewrite changes nothing (those of
    at most two code units).
  \<^item> \<open>UTF16\<close>: the rewrite removes the first and last character exactly
    when both are one code unit (or the text has at most one character); on a
    well-formed text the result is well-formed exactly when no surrogate pair
    is at either end (or the text has at most two code units); a text that
    starts with a pair is left with an unpaired surrogate.
  \<^item> \<open>DOM_Tree\<close>: a multiset equation that accounts for every node when
    the children of a node are replaced; unchanged subtrees; tree order lists
    every node before its descendants.
  \<^item> \<open>DOM_Store\<close>: the setter preserves \<open>wf_dom\<close>, loses no
    identity and gives the one text node it creates the next identity; what
    every reference points to after it; the getter returns what the setter
    stored; the query's list points, in tree order, to exactly the matching
    descendants of the document, is distinct and is parents-first.
  \<^item> \<open>Handler\<close>: on a well-formed page the listener never throws, keeps
    the page well-formed, leaves every selected element with the rewritten
    form of the text it had at the start (nested ones included), leaves every
    node outside the badges unchanged, and writes one line to the console; with
    no badge on the page it changes no node; a second run rewrites again.
  \<^item> \<open>DOM_Kinds\<close>: the setter and the listener preserve \<open>wk_dom\<close>.
  \<^item> \<open>Document_Spec\<close>: the texts of the outermost badges after a rewrite
    are the rewritten texts; a second rewrite changes nothing exactly when
    each of them has at most two code units; the text of the document gets
    shorter by two code units for each badge (\<open>removed_units\<close>).
  \<^item> \<open>Refinement\<close> and this theory: \<open>erase\<close> commutes with the
    listener, \<open>erase (document p') = rewrite_document sel (erase (document
    p))\<close>; two runs rewrite twice; the pages on which a second run is
    harmless; the length of the page's text after the listener; the elements
    selected after the listener are the outermost ones selected before.
  \<^item> \<open>Page_Load\<close>: the relation and \<open>exec\<close> agree; \<open>load_inv\<close> holds
    in every reachable state (rule induction); a load in which the script ran
    \<open>n\<close> times before the event ends with the document rewritten \<open>n\<close>
    times; after the event nothing changes the page, so a script that runs
    late has no effect; every listener registered before the event is called
    when the load goes on.

  \<^bold>\<open>Bounds and termination.\<close> All functions are total and structurally
  recursive: trees are a datatype, so no traversal needs fuel, and the loop
  runs over the finite list the query returned. A load is a finite list of
  events; \<open>run\<close> returns \<open>None\<close> when an event of the list cannot happen
  in the phase reached. Integers are unbounded (\<open>int\<close>), as JavaScript's
  are exact far beyond any string length; code units are kept at 16 bits.

  \<^bold>\<open>Code and environment.\<close> Lines 1 to 12 are translated by
  \<open>run_script\<close>, \<open>on_dom_content_loaded\<close>, \<open>strip_count\<close> and
  \<open>new_text\<close>. Everything else that is executable models the environment
  the script calls: the string and DOM built-ins at their call sites, after the
  ECMAScript and DOM standards, and the load (\<open>phase\<close>, \<open>event\<close>,
  \<open>step\<close>, \<open>exec\<close>, \<open>run\<close>, \<open>initial\<close>, \<open>dispatch\<close>,
  \<open>invoke\<close>), after the HTML standard: the script itself never reads
  \<^verbatim>\<open>document.readyState\<close>, and all its function objects have the one
  body, so \<open>invoke\<close> does not look at which of them it calls.

  \<^bold>\<open>Not modelled.\<close> Rendering and the HTML parser that builds the
  document (a load starts from the document the parser will have built, which
  the script does not read before the event); changes other scripts make to
  the document; event propagation beyond the listeners of the document
  (capture, bubbling, the window) and the \<^verbatim>\<open>capture\<close> and options
  arguments of \<^verbatim>\<open>addEventListener\<close>, which line 1 does not pass; the
  index and list arguments of the \<^verbatim>\<open>forEach\<close> callback, which line 4
  does not take; node kinds other than the five of \<open>kind\<close> (document
  fragments, attributes, processing instructions, CDATA sections);
  attributes other than the class list; selectors other than a single class,
  and the case-insensitive matching of class names in quirks mode;
  \<^verbatim>\<open>slice\<close> with an argument that is not an integer or is left out; the
  text the console shows for values other than strings.
\<close>

section \<open>The listener as a rewrite of the document\<close>

text \<open>
  C3. Refinement. The document the listener leaves is, up to the identity of
  nodes, the abstract rewrite of the document it started from: every
  outermost element of the class below the root has one text child holding its
  old text without the first and last code unit (no child if that is empty),
  and everything else is as it was.
\<close>

theorem document_refinement:
  assumes "wf_dom p" and "on_dom_content_loaded p = Normal p'"
  shows "erase (document p') = rewrite_document category_count_selector (erase (document p))"
  using assms by (rule listener_refines)

theorem document_refinement_witness:
  "wf_dom example_page \<and> on_dom_content_loaded example_page = Normal example_result \<and>
   erase (document example_result) =
     rewrite_document category_count_selector (erase (document example_page))"
  using document_refinement [OF example_wf example_run] example_wf example_run by (intro conjI)

text \<open>
  C24. Two runs of the listener in a row rewrite the document twice.
\<close>

theorem two_runs_rewrite_twice:
  assumes "wf_dom p" and "on_dom_content_loaded p = Normal p'"
    and "on_dom_content_loaded p' = Normal p''"
  shows "erase (document p'') =
    rewrite_document category_count_selector
      (rewrite_document category_count_selector (erase (document p)))"
proof -
  from on_dom_content_loaded_run [OF assms(1)] assms(2) have "wf_dom p'"
    by auto
  then show ?thesis
    using assms by (simp add: listener_refines)
qed

theorem two_runs_rewrite_twice_witness:
  "wf_dom example_page \<and> on_dom_content_loaded example_page = Normal example_result \<and>
   on_dom_content_loaded example_result = Normal example_rerun \<and>
   erase (document example_rerun) =
     rewrite_document category_count_selector
       (rewrite_document category_count_selector (erase (document example_page)))"
  using two_runs_rewrite_twice [OF example_wf example_run example_run_again]
    example_wf example_run example_run_again
  by (intro conjI)

text \<open>
  C14. A second run of the listener leaves the document as the first run left
  it exactly when every badge of the starting page has a text of at most two
  code units: on every other page running the listener twice loses text.
\<close>

theorem second_run_harmless_iff:
  assumes "wf_dom p" and "on_dom_content_loaded p = Normal p'"
    and "on_dom_content_loaded p' = Normal p''"
  shows "erase (document p'') = erase (document p') \<longleftrightarrow>
    (\<forall>s\<in>set (badge_texts category_count_selector (erase (document p))). length s \<le> 2)"
proof -
  from on_dom_content_loaded_run [OF assms(1)] assms(2) have "wf_dom p'"
    by auto
  with assms show ?thesis
    by (simp add: listener_refines rewrite_document_twice_iff)
qed

theorem second_run_harmless_iff_witness:
  "wf_dom example_page \<and> on_dom_content_loaded example_page = Normal example_result \<and>
   on_dom_content_loaded example_result = Normal example_rerun \<and>
   erase (document example_rerun) \<noteq> erase (document example_result) \<and>
   badge_texts category_count_selector (erase (document example_page)) = [js_lit ''(5)'']"
proof -
  have t: "badge_texts category_count_selector (erase (document example_page)) = [js_lit ''(5)'']"
    by (simp add: page_eval)
  from second_run_harmless_iff [OF example_wf example_run example_run_again]
  have "erase (document example_rerun) \<noteq> erase (document example_result)"
    by (simp add: t)
  then show ?thesis
    using example_wf example_run example_run_again t by (intro conjI)
qed

text \<open>
  C18. Accounting for the text of the page: the listener removes two code
  units from the text of each outermost badge (fewer if the badge has fewer),
  and nothing else; the text of the page gets shorter by exactly that much.
\<close>

theorem page_text_length:
  assumes "wf_dom p" and "on_dom_content_loaded p = Normal p'"
  shows "length (descendant_text (document p')) +
      removed_units (badge_texts category_count_selector (erase (document p))) =
    length (descendant_text (document p))"
  using assms by (simp add: descendant_text_below listener_refines length_below_text_rewrite)

theorem page_text_length_witness:
  "wf_dom example_page \<and> on_dom_content_loaded example_page = Normal example_result \<and>
   length (descendant_text (document example_result)) +
      removed_units (badge_texts category_count_selector (erase (document example_page))) =
    length (descendant_text (document example_page))"
  using page_text_length [OF example_wf example_run] example_wf example_run by (intro conjI)

text \<open>
  C17. After the listener \<^verbatim>\<open>querySelectorAll\<close> finds the outermost
  elements of the class it found before, in the same order: each of them is
  still in the document, and the elements of the class that were inside one
  of them have left it.
\<close>

theorem selected_after_listener:
  assumes "wf_dom p" and "on_dom_content_loaded p = Normal p'"
  shows "document_query_selector_all category_count_selector p' =
    concat (map (outermost category_count_selector) (child_nodes (document p)))"
  using assms by (rule listener_selects)

theorem selected_after_listener_witness:
  "wf_dom example_page \<and> on_dom_content_loaded example_page = Normal example_result \<and>
   document_query_selector_all category_count_selector example_result =
     concat (map (outermost category_count_selector) (child_nodes (document example_page)))"
  using selected_after_listener [OF example_wf example_run] example_wf example_run
  by (intro conjI)

end
